theory Spec2Isabelle
  imports Main "HOL-Library.Sublist"
begin

section \<open>Go strings as byte lists\<close>

text \<open>
  A Go \<open>string\<close> is a sequence of bytes; it is modelled as a \<open>char list\<close>, one \<open>char\<close> per byte.
  The functions of package \<open>strings\<close> that the generator uses are written out below.
  \<open>strings.HasPrefix s p\<close> is \<open>prefix p s\<close>.
\<close>

definition newline :: char where
  "newline = CHR 0x0A"

definition quote :: char where
  "quote = CHR 0x22"

text \<open>
  \<open>splitLines s = strings.Split(s, "\n")\<close>: one more element than there are newlines in
  \<open>s\<close>, so never empty (the \<open>[]\<close> branch below is never taken).
\<close>

fun splitLines :: "string \<Rightarrow> string list" where
  "splitLines [] = [[]]"
| "splitLines (c # cs) =
     (if c = newline then [] # splitLines cs
      else (case splitLines cs of [] \<Rightarrow> [[c]] | l # ls \<Rightarrow> (c # l) # ls))"

text \<open>\<open>joinLines ls = strings.Join(ls, "\n")\<close>.\<close>

fun joinLines :: "string list \<Rightarrow> string" where
  "joinLines [] = []"
| "joinLines [l] = l"
| "joinLines (l # m # ls) = l @ newline # joinLines (m # ls)"

text \<open>\<open>strings.TrimPrefix\<close>.\<close>

definition TrimPrefix :: "string \<Rightarrow> string \<Rightarrow> string" where
  "TrimPrefix s p = (if prefix p s then drop (length p) s else s)"

text \<open>
  \<open>strings.TrimSpace\<close> removes leading and trailing white space as Unicode defines it
  (\<open>unicode.IsSpace\<close>). On bytes, that is: repeatedly remove a leading, then a trailing,
  UTF-8 encoding of one of the runes U+0009..U+000D, U+0020, U+0085, U+00A0, U+1680,
  U+2000..U+200A, U+2028, U+2029, U+202F, U+205F, U+3000. A byte that does not start a
  valid encoding decodes to U+FFFD, which is no space, so trimming stops there.
\<close>

definition spaceEncodings :: "string list" where
  "spaceEncodings =
    [[CHR 0x09], [CHR 0x0A], [CHR 0x0B], [CHR 0x0C], [CHR 0x0D], [CHR 0x20],
     [CHR 0xC2, CHR 0x85], [CHR 0xC2, CHR 0xA0],
     [CHR 0xE1, CHR 0x9A, CHR 0x80],
     [CHR 0xE2, CHR 0x80, CHR 0x80], [CHR 0xE2, CHR 0x80, CHR 0x81],
     [CHR 0xE2, CHR 0x80, CHR 0x82], [CHR 0xE2, CHR 0x80, CHR 0x83],
     [CHR 0xE2, CHR 0x80, CHR 0x84], [CHR 0xE2, CHR 0x80, CHR 0x85],
     [CHR 0xE2, CHR 0x80, CHR 0x86], [CHR 0xE2, CHR 0x80, CHR 0x87],
     [CHR 0xE2, CHR 0x80, CHR 0x88], [CHR 0xE2, CHR 0x80, CHR 0x89],
     [CHR 0xE2, CHR 0x80, CHR 0x8A],
     [CHR 0xE2, CHR 0x80, CHR 0xA8], [CHR 0xE2, CHR 0x80, CHR 0xA9],
     [CHR 0xE2, CHR 0x80, CHR 0xAF], [CHR 0xE2, CHR 0x81, CHR 0x9F],
     [CHR 0xE3, CHR 0x80, CHR 0x80]]"

text \<open>The first encoding of the list that the string starts with, if any.\<close>

fun leading :: "string list \<Rightarrow> string \<Rightarrow> string option" where
  "leading [] s = None"
| "leading (e # es) s = (if e \<noteq> [] \<and> prefix e s then Some e else leading es s)"

function stripLeading :: "string list \<Rightarrow> string \<Rightarrow> string" where
  "stripLeading es s =
     (case leading es s of
        None \<Rightarrow> s
      | Some e \<Rightarrow> stripLeading es (drop (length e) s))"
  by pat_completeness auto
termination
proof (relation "measure (\<lambda>(es, s). length s)")
  show "wf (measure (\<lambda>(es, s). length s))" by simp
next
  fix es s e
  assume "leading es s = Some e"
  then have "e \<noteq> []" "prefix e s"
    by (induction es) (auto split: if_splits)
  then have "0 < length e" "length e \<le> length s" by (auto simp: prefix_length_le)
  then have "length s - length e < length s" by arith
  then show "((es, drop (length e) s), (es, s)) \<in> measure (\<lambda>(es, s). length s)" by simp
qed

declare stripLeading.simps [simp del]

definition TrimSpace :: "string \<Rightarrow> string" where
  "TrimSpace s =
     rev (stripLeading (map rev spaceEncodings) (rev (stripLeading spaceEncodings s)))"

text \<open>
  A string in which no white-space rune starts at any position: what "whitespace-free"
  means for an identity.
\<close>

fun whitespaceFree :: "string \<Rightarrow> bool" where
  "whitespaceFree [] = True"
| "whitespaceFree (c # cs) = (leading spaceEncodings (c # cs) = None \<and> whitespaceFree cs)"

section \<open>The file system\<close>

text \<open>
  A path names nothing (\<open>NoEnt\<close>) or a regular file with its content and whether this
  process may read and write it. Every \<open>os.ReadFile\<close> and \<open>os.WriteFile\<close> call is
  recorded in \<open>ops\<close>, every \<open>fmt.Printf\<close>/\<open>Println\<close> in \<open>stdout\<close>, oldest first.
\<close>

datatype fnode = NoEnt | Regular (fcontent: string) (can_read: bool) (can_write: bool)

datatype fileop = OpRead string | OpWrite string

record world =
  files :: "string \<Rightarrow> fnode"
  ops :: "fileop list"
  stdout :: "string list"

text \<open>\<open>filepath.IsAbs\<close> on Unix.\<close>

definition IsAbs :: "string \<Rightarrow> bool" where
  "IsAbs p = prefix ''/'' p"

text \<open>\<open>os.IsNotExist(err)\<close> for the error of \<open>os.Stat\<close>.\<close>

definition StatNotExist :: "world \<Rightarrow> string \<Rightarrow> bool" where
  "StatNotExist w p = (files w p = NoEnt)"

definition ReadFile :: "world \<Rightarrow> string \<Rightarrow> (string + string) \<times> world" where
  "ReadFile w p =
     (let w' = w\<lparr>ops := ops w @ [OpRead p]\<rparr> in
      case files w p of
        NoEnt \<Rightarrow> (Inl (''open '' @ p @ '': no such file or directory''), w')
      | Regular c r wr \<Rightarrow>
          if r then (Inr c, w') else (Inl (''open '' @ p @ '': permission denied''), w'))"

text \<open>\<open>os.WriteFile\<close> truncates an existing file it may write, and creates a missing one.\<close>

definition WriteFile :: "world \<Rightarrow> string \<Rightarrow> string \<Rightarrow> string option \<times> world" where
  "WriteFile w p d =
     (let w' = w\<lparr>ops := ops w @ [OpWrite p]\<rparr> in
      case files w p of
        NoEnt \<Rightarrow> (None, w'\<lparr>files := (files w)(p := Regular d True True)\<rparr>)
      | Regular c r wr \<Rightarrow>
          if wr then (None, w'\<lparr>files := (files w)(p := Regular d r wr)\<rparr>)
          else (Some (''open '' @ p @ '': permission denied''), w'))"

definition Printf :: "world \<Rightarrow> string \<Rightarrow> world" where
  "Printf w s = w\<lparr>stdout := stdout w @ [s]\<rparr>"

section \<open>The manifest: \<open>go.mod\<close>\<close>

text \<open>
  The loop of \<open>updateGoModule\<close>: the first line that starts with \<open>module \<close> becomes
  \<open>module <modulePath>\<close>, and the loop stops there.
\<close>

fun setModuleLine :: "string list \<Rightarrow> string \<Rightarrow> string list" where
  "setModuleLine [] m = []"
| "setModuleLine (l # ls) m =
     (if prefix ''module '' l then (''module '' @ m) # ls else l # setModuleLine ls m)"

definition updateGoModule :: "world \<Rightarrow> string \<Rightarrow> string \<Rightarrow> string option \<times> world" where
  "updateGoModule w goModPath modulePath =
     (if \<not> IsAbs goModPath then (Some (''BUG: goModPath is not absolute: '' @ goModPath), w)
      else if StatNotExist w goModPath
        then (Some (''go.mod file does not exist at path: '' @ goModPath), w)
      else case ReadFile w goModPath of
        (Inl err, w1) \<Rightarrow>
          (Some (''failed to read go.mod file '' @ goModPath @ '': '' @ err), w1)
      | (Inr contentStr, w1) \<Rightarrow>
          (let lines = setModuleLine (splitLines contentStr) modulePath in
           case WriteFile w1 goModPath (joinLines lines) of
             (Some err, w2) \<Rightarrow>
               (Some (''failed to write go.mod file '' @ goModPath @ '': '' @ err), w2)
           | (None, w2) \<Rightarrow> (None, w2)))"

text \<open>The loop of \<open>extractOriginalModulePath\<close>.\<close>

fun findModuleLine :: "string list \<Rightarrow> string option" where
  "findModuleLine [] = None"
| "findModuleLine (l # ls) =
     (if prefix ''module '' l then Some (TrimSpace (TrimPrefix l ''module ''))
      else findModuleLine ls)"

definition extractOriginalModulePath :: "world \<Rightarrow> string \<Rightarrow> (string + string) \<times> world" where
  "extractOriginalModulePath w goModPath =
     (if \<not> IsAbs goModPath then (Inl (''BUG: goModPath is not absolute: '' @ goModPath), w)
      else if StatNotExist w goModPath
        then (Inl (''go.mod file does not exist at path: '' @ goModPath), w)
      else case ReadFile w goModPath of
        (Inl err, w1) \<Rightarrow>
          (Inl (''failed to read go.mod file '' @ goModPath @ '': '' @ err), w1)
      | (Inr contentStr, w1) \<Rightarrow>
          (case findModuleLine (splitLines contentStr) of
             Some moduleName \<Rightarrow> (Inr moduleName, w1)
           | None \<Rightarrow> (Inl ''no module declaration found in go.mod'', w1)))"

section \<open>Rewriting import paths\<close>

subsection \<open>Slices and searches of package \<open>strings\<close>\<close>

text \<open>
  \<open>strings.Index(s, `"`)\<close> for a one-byte pattern: the position of the first occurrence,
  \<open>None\<close> where Go returns \<open>-1\<close>.
\<close>

fun Index :: "string \<Rightarrow> char \<Rightarrow> nat option" where
  "Index [] c = None"
| "Index (x # xs) c = (if x = c then Some 0 else map_option Suc (Index xs c))"

text \<open>
  Slice expressions. Go panics when the bounds are out of range; \<open>None\<close> is the panic.
  \<open>sliceFrom s i\<close> is \<open>s[i:]\<close>, \<open>sliceTo s j\<close> is \<open>s[:j]\<close>, \<open>slice s i j\<close> is \<open>s[i:j]\<close>.
\<close>

definition sliceFrom :: "string \<Rightarrow> nat \<Rightarrow> string option" where
  "sliceFrom s i = (if i \<le> length s then Some (drop i s) else None)"

definition sliceTo :: "string \<Rightarrow> nat \<Rightarrow> string option" where
  "sliceTo s j = (if j \<le> length s then Some (take j s) else None)"

definition slice :: "string \<Rightarrow> nat \<Rightarrow> nat \<Rightarrow> string option" where
  "slice s i j = (if i \<le> j \<and> j \<le> length s then Some (take (j - i) (drop i s)) else None)"

text \<open>
  \<open>strings.Replace(s, old, new, 1)\<close>: the leftmost occurrence of \<open>old\<close> is replaced; an
  empty \<open>old\<close> matches at the beginning; without an occurrence \<open>s\<close> is returned.
\<close>

fun Replace1 :: "string \<Rightarrow> string \<Rightarrow> string \<Rightarrow> string" where
  "Replace1 [] old new = (if old = [] then new else [])"
| "Replace1 (c # cs) old new =
     (if prefix old (c # cs) then new @ drop (length old) (c # cs)
      else c # Replace1 cs old new)"

subsection \<open>\<open>replaceModulePathInLine\<close>\<close>

text \<open>
  The \<open>for\<close> loop of \<open>replaceModulePathInLine\<close>, with its two variables \<open>line\<close> and
  \<open>start\<close>. Each \<open>break\<close> returns the current line.
\<close>

function scanQuotes :: "string \<Rightarrow> string \<Rightarrow> string \<Rightarrow> nat \<Rightarrow> string option" where
  "scanQuotes oldModule newModule line start =
     (case sliceFrom line start of
        None \<Rightarrow> None
      | Some rest \<Rightarrow>
     (case Index rest quote of
        None \<Rightarrow> Some line
      | Some k \<Rightarrow>
     (case sliceFrom line (k + start + 1) of
        None \<Rightarrow> None
      | Some rest' \<Rightarrow>
     (case Index rest' quote of
        None \<Rightarrow> Some line
      | Some k' \<Rightarrow>
     (case slice line (k + start + 1) (k' + (k + start + 1)) of
        None \<Rightarrow> None
      | Some quotedPath \<Rightarrow>
          if quotedPath = oldModule \<or> prefix (oldModule @ ''/'') quotedPath then
            (case sliceTo line (k + start + 1) of
               None \<Rightarrow> None
             | Some lead \<Rightarrow>
            (case sliceFrom line (k' + (k + start + 1)) of
               None \<Rightarrow> None
             | Some trail \<Rightarrow>
                 scanQuotes oldModule newModule
                   (lead @ Replace1 quotedPath oldModule newModule @ trail)
                   (k + start + 1 + length (Replace1 quotedPath oldModule newModule) + 1)))
          else scanQuotes oldModule newModule line (k' + (k + start + 1) + 1))))))"
  by pat_completeness auto
termination
proof (relation "measure (\<lambda>(oldModule, newModule, line, start). length line - start)")
  show "wf (measure (\<lambda>(oldModule, newModule, line, start). length line - start))" by simp
next
  fix oldModule newModule line :: string and start k k' :: nat
    and rest rest' quotedPath lead trail :: string
  assume a: "sliceFrom line start = Some rest" "Index rest quote = Some k"
    "sliceFrom line (k + start + 1) = Some rest'" "Index rest' quote = Some k'"
    "sliceTo line (k + start + 1) = Some lead"
    "sliceFrom line (k' + (k + start + 1)) = Some trail"
  have lt: "i < length s" if "Index s c = Some i" for s :: string and c i
    using that by (induction s arbitrary: i) (auto split: if_splits)
  have "rest' = drop (k + start + 1) line" "k + start + 1 \<le> length line"
    using a(3) by (auto simp: sliceFrom_def split: if_splits)
  with lt [OF a(4)] have b: "k' + (k + start + 1) < length line" by simp
  have "lead = take (k + start + 1) line" "trail = drop (k' + (k + start + 1)) line"
    using a(5,6) by (auto simp: sliceTo_def sliceFrom_def split: if_splits)
  with b show "((oldModule, newModule,
           lead @ Replace1 quotedPath oldModule newModule @ trail,
           k + start + 1 + length (Replace1 quotedPath oldModule newModule) + 1),
          (oldModule, newModule, line, start))
         \<in> measure (\<lambda>(oldModule, newModule, line, start). length line - start)"
    by simp
next
  fix oldModule newModule line :: string and start k k' :: nat
    and rest rest' quotedPath :: string
  assume a: "sliceFrom line start = Some rest" "Index rest quote = Some k"
    "sliceFrom line (k + start + 1) = Some rest'" "Index rest' quote = Some k'"
  have lt: "i < length s" if "Index s c = Some i" for s :: string and c i
    using that by (induction s arbitrary: i) (auto split: if_splits)
  have "rest' = drop (k + start + 1) line" "k + start + 1 \<le> length line"
    using a(3) by (auto simp: sliceFrom_def split: if_splits)
  with lt [OF a(4)] have b: "k' + (k + start + 1) < length line" by simp
  then show "((oldModule, newModule, line, k' + (k + start + 1) + 1),
          (oldModule, newModule, line, start))
         \<in> measure (\<lambda>(oldModule, newModule, line, start). length line - start)"
    by simp
qed

declare scanQuotes.simps [simp del]

definition replaceModulePathInLine :: "string \<Rightarrow> string \<Rightarrow> string \<Rightarrow> string option" where
  "replaceModulePathInLine line oldModule newModule = scanQuotes oldModule newModule line 0"

subsection \<open>\<open>replaceImportPaths\<close>\<close>

text \<open>
  The loop over the lines, with the flag \<open>inImportBlock\<close>; the result is the updated
  slice \<open>lines\<close>. A panic of \<open>replaceModulePathInLine\<close> ends the loop.
\<close>

fun rewriteLines :: "bool \<Rightarrow> string list \<Rightarrow> string \<Rightarrow> string \<Rightarrow> string list option" where
  "rewriteLines inImportBlock [] oldModule newModule = Some []"
| "rewriteLines inImportBlock (line # rest) oldModule newModule =
     (if TrimSpace line = ''import ('' then
        map_option ((#) line) (rewriteLines True rest oldModule newModule)
      else if inImportBlock \<and> TrimSpace line = '')'' then
        map_option ((#) line) (rewriteLines False rest oldModule newModule)
      else if prefix ''import '' (TrimSpace line) \<or> inImportBlock then
        (case replaceModulePathInLine line oldModule newModule of
           None \<Rightarrow> None
         | Some newLine \<Rightarrow>
             map_option ((#) newLine) (rewriteLines inImportBlock rest oldModule newModule))
      else map_option ((#) line) (rewriteLines inImportBlock rest oldModule newModule))"

definition replaceImportPaths :: "string \<Rightarrow> string \<Rightarrow> string \<Rightarrow> string option" where
  "replaceImportPaths content oldModule newModule =
     map_option joinLines (rewriteLines False (splitLines content) oldModule newModule)"

subsection \<open>The rewrite as the specification words it\<close>

text \<open>
  Paired-quote scanning, left to right and non-greedy: a line is cut into the text outside
  quotes and the quoted values, the first quote pairing with the second, the third with
  the fourth, and so on; a last quote without partner stays in the outside text.
\<close>

datatype piece = Outside string | Quoted string

function pieces :: "string \<Rightarrow> piece list" where
  "pieces s =
     (case dropWhile (\<lambda>c. c \<noteq> quote) s of
        [] \<Rightarrow> [Outside s]
      | q # r \<Rightarrow>
          (case dropWhile (\<lambda>c. c \<noteq> quote) r of
             [] \<Rightarrow> [Outside s]
           | q' # r' \<Rightarrow>
               Outside (takeWhile (\<lambda>c. c \<noteq> quote) s)
                 # Quoted (takeWhile (\<lambda>c. c \<noteq> quote) r) # pieces r'))"
  by pat_completeness auto
termination
proof (relation "measure length")
  show "wf (measure length)" by simp
next
  fix s r r' :: string and q q' :: char
  assume "dropWhile (\<lambda>c. c \<noteq> quote) s = q # r" "dropWhile (\<lambda>c. c \<noteq> quote) r = q' # r'"
  then have "length (q # r) \<le> length s" "length (q' # r') \<le> length r"
    by (metis length_dropWhile_le)+
  then show "(r', s) \<in> measure length" by simp
qed

declare pieces.simps [simp del]

fun render :: "piece list \<Rightarrow> string" where
  "render [] = []"
| "render (Outside t # ps) = t @ render ps"
| "render (Quoted v # ps) = quote # v @ quote # render ps"

text \<open>
  A quoted value that equals \<open>oldIdentity\<close>, or begins with it followed by \<open>/\<close>, gets
  \<open>newIdentity\<close> for that prefix and keeps the remainder; anything else is untouched.
\<close>

fun rewritePiece :: "string \<Rightarrow> string \<Rightarrow> piece \<Rightarrow> piece" where
  "rewritePiece old new (Outside t) = Outside t"
| "rewritePiece old new (Quoted v) =
     Quoted (if v = old \<or> prefix (old @ ''/'') v then new @ drop (length old) v else v)"

definition rewriteQuoted :: "string \<Rightarrow> string \<Rightarrow> string \<Rightarrow> string" where
  "rewriteQuoted old new line = render (map (rewritePiece old new) (pieces line))"

text \<open>
  The cursor is inside an import block at line \<open>i\<close> when an earlier line, trimmed, is
  exactly \<open>import (\<close> and no line after that one and before line \<open>i\<close> is, trimmed, exactly
  \<open>)\<close>. A candidate line starts, trimmed, with \<open>import \<close>, or has the cursor inside a block.
\<close>

definition insideBlock :: "string list \<Rightarrow> nat \<Rightarrow> bool" where
  "insideBlock ls i \<longleftrightarrow>
     (\<exists>j<i. TrimSpace (ls ! j) = ''import ('' \<and>
            (\<forall>k. j < k \<and> k < i \<longrightarrow> TrimSpace (ls ! k) \<noteq> '')''))"

definition candidate :: "string list \<Rightarrow> nat \<Rightarrow> bool" where
  "candidate ls i \<longleftrightarrow> prefix ''import '' (TrimSpace (ls ! i)) \<or> insideBlock ls i"

text \<open>
  The whole file: every candidate line has its quoted values rewritten, every other line
  is kept, and the lines are joined again.
\<close>

definition rewriteImports :: "string \<Rightarrow> string \<Rightarrow> string \<Rightarrow> string" where
  "rewriteImports old new content =
     joinLines
       (map (\<lambda>i. if candidate (splitLines content) i
                  then rewriteQuoted old new (splitLines content ! i)
                  else splitLines content ! i)
          [0..<length (splitLines content)])"

section \<open>Walking the project tree\<close>

text \<open>
  What a Go function returning \<open>error\<close> can produce here: \<open>nil\<close>, the sentinel
  \<open>filepath.SkipDir\<close>, another error with its message, or a panic that unwinds the call.
\<close>

datatype goerr = Nil | SkipDir | Error string | Panic

fun errText :: "goerr \<Rightarrow> string" where
  "errText (Error m) = m"
| "errText SkipDir = ''skip this directory''"
| "errText Nil = []"
| "errText Panic = []"

definition updateImportPathsInFile :: "world \<Rightarrow> string \<Rightarrow> string \<Rightarrow> string \<Rightarrow> goerr \<times> world" where
  "updateImportPathsInFile w filePath oldModule newModule =
     (case ReadFile w filePath of
        (Inl err, w1) \<Rightarrow> (Error (''failed to read file: '' @ err), w1)
      | (Inr contentStr, w1) \<Rightarrow>
          (case replaceImportPaths contentStr oldModule newModule of
             None \<Rightarrow> (Panic, w1)
           | Some newContent \<Rightarrow>
               if newContent \<noteq> contentStr then
                 (case WriteFile w1 filePath newContent of
                    (Some err, w2) \<Rightarrow> (Error (''failed to write file: '' @ err), w2)
                  | (None, w2) \<Rightarrow> (Nil, w2))
               else (Nil, w1)))"

text \<open>
  \<open>filepath.Base\<close> on Unix: the last element of the path, after removing trailing
  slashes; \<open>.\<close> for the empty path and \<open>/\<close> for a path of slashes only.
\<close>

definition Base :: "string \<Rightarrow> string" where
  "Base path =
     (if path = [] then ''.''
      else let p = rev (dropWhile (\<lambda>c. c = CHR ''/'') (rev path));
               e = rev (takeWhile (\<lambda>c. c \<noteq> CHR ''/'') (rev p))
           in if e = [] then ''/'' else e)"

text \<open>
  \<open>filepath.Join(dir, name)\<close> as \<open>filepath.Walk\<close> calls it: \<open>dir\<close> is a clean path and
  \<open>name\<close> an entry of that directory.
\<close>

definition Join :: "string \<Rightarrow> string \<Rightarrow> string" where
  "Join dir name = (if dir = ''/'' then dir @ name else dir @ ''/'' @ name)"

text \<open>
  The directory structure that \<open>filepath.Walk\<close> sees below the root: an entry is not a
  directory (\<open>FileNode\<close>), or a directory with whether it can be listed and its entries in
  the order \<open>readDirNames\<close> returns them, or an entry whose \<open>Lstat\<close> fails (\<open>Broken\<close>).
  File contents are in \<open>files\<close> of the world, by path.
\<close>

datatype node = FileNode | DirNode bool "(string \<times> node) list" | Broken

fun isDirNode :: "node \<Rightarrow> bool" where
  "isDirNode (DirNode readable entries) = True"
| "isDirNode FileNode = False"
| "isDirNode Broken = False"

text \<open>The function literal passed to \<open>filepath.Walk\<close> by \<open>updateImportPaths\<close>.\<close>

definition walkFn ::
  "string \<Rightarrow> string \<Rightarrow> world \<Rightarrow> string \<Rightarrow> bool \<Rightarrow> string option \<Rightarrow> goerr \<times> world" where
  "walkFn oldModule newModule w path isDir err =
     (case err of
        Some e \<Rightarrow> (Error e, w)
      | None \<Rightarrow>
          if isDir then
            (if Base path = ''vendor'' \<or> Base path = ''.git'' \<or> prefix ''.'' (Base path)
             then (SkipDir, w) else (Nil, w))
          else if \<not> suffix ''.go'' path then (Nil, w)
          else if Base path = ''go.mod'' then (Nil, w)
          else
            (case updateImportPathsInFile w path oldModule newModule of
               (Error e, w1) \<Rightarrow>
                 (Nil, Printf w1 (''Warning: failed to update import paths in '' @ path
                                   @ '': '' @ e @ [newline]))
             | (Panic, w1) \<Rightarrow> (Panic, w1)
             | (r, w1) \<Rightarrow> (Nil, w1)))"

text \<open>
  \<open>filepath.walk\<close> and its loop over the names of a directory. The callback gets the
  world, the path, whether the entry is a directory, and the error of \<open>Lstat\<close> or of
  listing the directory.
\<close>

fun walk ::
    "(world \<Rightarrow> string \<Rightarrow> bool \<Rightarrow> string option \<Rightarrow> goerr \<times> world) \<Rightarrow> world \<Rightarrow> string \<Rightarrow> node
      \<Rightarrow> goerr \<times> world"
  and walkEntries ::
    "(world \<Rightarrow> string \<Rightarrow> bool \<Rightarrow> string option \<Rightarrow> goerr \<times> world) \<Rightarrow> world \<Rightarrow> string
      \<Rightarrow> (string \<times> node) list \<Rightarrow> goerr \<times> world"
where
  "walk fn w path FileNode = fn w path False None"
| "walk fn w path Broken =
     fn w path False (Some (''lstat '' @ path @ '': no such file or directory''))"
| "walk fn w path (DirNode readable entries) =
     (let err = (if readable then None
                 else Some (''open '' @ path @ '': permission denied''))
      in case fn w path True err of
           (err1, w1) \<Rightarrow>
             if err \<noteq> None \<or> err1 \<noteq> Nil then (err1, w1)
             else walkEntries fn w1 path entries)"
| "walkEntries fn w path [] = (Nil, w)"
| "walkEntries fn w path ((name, nd) # rest) =
     (if nd = Broken then
        (case fn w (Join path name) False
                (Some (''lstat '' @ Join path name @ '': no such file or directory'')) of
           (err, w1) \<Rightarrow>
             if err \<noteq> Nil \<and> err \<noteq> SkipDir then (err, w1)
             else walkEntries fn w1 path rest)
      else
        (case walk fn w (Join path name) nd of
           (err, w1) \<Rightarrow>
             if err \<noteq> Nil \<and> (\<not> isDirNode nd \<or> err \<noteq> SkipDir) then (err, w1)
             else walkEntries fn w1 path rest))"

text \<open>\<open>filepath.Walk\<close>.\<close>

definition Walk ::
  "(world \<Rightarrow> string \<Rightarrow> bool \<Rightarrow> string option \<Rightarrow> goerr \<times> world) \<Rightarrow> world \<Rightarrow> string \<Rightarrow> node
    \<Rightarrow> goerr \<times> world" where
  "Walk fn w root nd =
     (case (if nd = Broken
            then fn w root False (Some (''lstat '' @ root @ '': no such file or directory''))
            else walk fn w root nd) of
        (err, w1) \<Rightarrow> if err = SkipDir then (Nil, w1) else (err, w1))"

definition updateImportPaths ::
  "world \<Rightarrow> node \<Rightarrow> string \<Rightarrow> string \<Rightarrow> string \<Rightarrow> goerr \<times> world" where
  "updateImportPaths w tree projectPath oldModule newModule =
     (if oldModule = newModule then
        (Error (''oldModule and newModule are the same: '' @ oldModule), w)
      else if oldModule = [] \<or> newModule = [] then
        (Error (''oldModule and newModule must not be empty (old: '' @ [CHR 0x27] @ oldModule
                @ [CHR 0x27] @ '', new: '' @ [CHR 0x27] @ newModule @ [CHR 0x27] @ '')''), w)
      else
        (case Walk (walkFn oldModule newModule) w projectPath tree of
           (err, w1) \<Rightarrow>
             if err = Nil then (Nil, w1)
             else if err = Panic then (Panic, w1)
             else (Error (''error walking project directory: '' @ errText err), w1)))"

subsection \<open>The source files of a tree\<close>

text \<open>
  The files the rewrite is for: the entries that are not directories, whose path ends in
  \<open>.go\<close> (and whose name is not \<open>go.mod\<close>), outside every directory named \<open>vendor\<close> or
  starting with a dot, in the order of the walk.
\<close>

definition skippedDir :: "string \<Rightarrow> bool" where
  "skippedDir path \<longleftrightarrow>
     Base path = ''vendor'' \<or> Base path = ''.git'' \<or> prefix ''.'' (Base path)"

fun sourceFiles :: "string \<Rightarrow> node \<Rightarrow> string list"
  and sourceFilesIn :: "string \<Rightarrow> (string \<times> node) list \<Rightarrow> string list"
where
  "sourceFiles path FileNode =
     (if suffix ''.go'' path \<and> Base path \<noteq> ''go.mod'' then [path] else [])"
| "sourceFiles path Broken = []"
| "sourceFiles path (DirNode readable entries) =
     (if skippedDir path then [] else sourceFilesIn path entries)"
| "sourceFilesIn path [] = []"
| "sourceFilesIn path ((name, nd) # rest) =
     sourceFiles (Join path name) nd @ sourceFilesIn path rest"

text \<open>
  The directory structure itself is sound: every entry the walk reaches can be examined
  with \<open>Lstat\<close> and every directory it reaches can be listed.
\<close>

fun walkable :: "string \<Rightarrow> node \<Rightarrow> bool"
  and walkableIn :: "string \<Rightarrow> (string \<times> node) list \<Rightarrow> bool"
where
  "walkable path FileNode = True"
| "walkable path Broken = False"
| "walkable path (DirNode readable entries) =
     (readable \<and> (skippedDir path \<or> walkableIn path entries))"
| "walkableIn path [] = True"
| "walkableIn path ((name, nd) # rest) =
     (walkable (Join path name) nd \<and> walkableIn path rest)"

text \<open>
  The per-file operation fails on a path when the file cannot be read, or when its
  content would change and it cannot be written.
\<close>

definition fileFails :: "world \<Rightarrow> string \<Rightarrow> string \<Rightarrow> string \<Rightarrow> bool" where
  "fileFails w old new p =
     (case files w p of
        NoEnt \<Rightarrow> True
      | Regular c r wr \<Rightarrow> \<not> r \<or> (replaceImportPaths c old new \<noteq> Some c \<and> \<not> wr))"

text \<open>The file at a path after the call is the file before with its imports rewritten.\<close>

definition rewrittenFile :: "string \<Rightarrow> string \<Rightarrow> fnode \<Rightarrow> fnode \<Rightarrow> bool" where
  "rewrittenFile old new a b =
     (case a of
        NoEnt \<Rightarrow> False
      | Regular c r wr \<Rightarrow> b = Regular (rewriteImports old new c) r wr)"

subsection \<open>The effect of one visit\<close>

text \<open>
  What visiting a source file does to the file at its path and to the output: the file
  is rewritten when it can be read and written, and a warning is printed when reading
  fails or a changed content cannot be written. \<open>step\<close> applies both to the pair of
  the file map and the output, and \<open>pairOf\<close> projects a world to that pair.
\<close>

definition fileAfter :: "string \<Rightarrow> string \<Rightarrow> fnode \<Rightarrow> fnode" where
  "fileAfter old new n =
     (case n of
        NoEnt \<Rightarrow> NoEnt
      | Regular c r wr \<Rightarrow> if r \<and> wr then Regular (rewriteImports old new c) r wr else n)"

definition fileWarning :: "string \<Rightarrow> string \<Rightarrow> string \<Rightarrow> fnode \<Rightarrow> string list" where
  "fileWarning old new p n =
     (case n of
        NoEnt \<Rightarrow>
          [''Warning: failed to update import paths in '' @ p @ '': ''
             @ (''failed to read file: '' @ ''open '' @ p @ '': no such file or directory'')
             @ [newline]]
      | Regular c r wr \<Rightarrow>
          if \<not> r then
            [''Warning: failed to update import paths in '' @ p @ '': ''
               @ (''failed to read file: '' @ ''open '' @ p @ '': permission denied'')
               @ [newline]]
          else if rewriteImports old new c \<noteq> c \<and> \<not> wr then
            [''Warning: failed to update import paths in '' @ p @ '': ''
               @ (''failed to write file: '' @ ''open '' @ p @ '': permission denied'')
               @ [newline]]
          else [])"

definition step ::
  "string \<Rightarrow> string \<Rightarrow> string \<Rightarrow> (string \<Rightarrow> fnode) \<times> string list \<Rightarrow> (string \<Rightarrow> fnode) \<times> string list" where
  "step old new p s = ((fst s)(p := fileAfter old new (fst s p)), snd s @ fileWarning old new p (fst s p))"


definition pairOf :: "world \<Rightarrow> (string \<Rightarrow> fnode) \<times> string list" where
  "pairOf w = (files w, stdout w)"

section \<open>The template cache\<close>

subsection \<open>Time\<close>

text \<open>
  An instant (\<open>time.Time\<close>) is a number of nanoseconds since the epoch; a
  \<open>time.Duration\<close> is a 64-bit count of nanoseconds. \<open>t.Sub(u)\<close> saturates at the largest
  and smallest duration, and \<open>time.Since(t)\<close> is \<open>time.Now().Sub(t)\<close>.
\<close>

definition maxDuration :: int where
  "maxDuration = 2 ^ 63 - 1"

definition minDuration :: int where
  "minDuration = - (2 ^ 63)"

definition Sub :: "int \<Rightarrow> int \<Rightarrow> int" where
  "Sub t u =
     (if t - u > maxDuration then maxDuration
      else if t - u < minDuration then minDuration
      else t - u)"

definition Since :: "int \<Rightarrow> int \<Rightarrow> int" where
  "Since now t = Sub now t"

definition Hour :: int where
  "Hour = 3600 * 1000000000"

definition CacheTTL :: int where
  "CacheTTL = 24 * Hour"

definition CacheMetadataFile :: string where
  "CacheMetadataFile = ''cache-metadata.json''"

subsection \<open>The manager and the metadata file\<close>

record TemplateCacheInfo =
  CachedAt :: int
  LastChecked :: int
  Path :: string
  Version :: string

text \<open>
  What \<open>json.Unmarshal\<close> finds for the member \<open>templates\<close> of the document: the member
  is absent, is \<open>null\<close>, or is an object with entries.
\<close>

datatype templatesMember =
    Absent
  | Null
  | Entries "string \<rightharpoonup> TemplateCacheInfo"

text \<open>
  The metadata file on disk: missing (\<open>os.IsNotExist\<close>), unreadable for another reason,
  unparsable (\<open>json.Unmarshal\<close> fails, after decoding what is given), or a document that
  parses.
\<close>

datatype metadataFile =
    Missing
  | Unreadable
  | Unparsable templatesMember
  | Document templatesMember

text \<open>
  An action of the manager on what lies outside the process, for the record of what
  happened and in which order.
\<close>

datatype event =
    EvPull string
  | EvRemoveAll string
  | EvClone string string string
  | EvSaveMetadata

text \<open>
  The state: the fields of \<open>cache.Manager\<close> (\<open>metadata\<close> is the map
  \<open>m.metadata.Templates\<close>, \<open>None\<close> for a nil map), the metadata file, which directories
  exist, and the events so far, oldest first.
\<close>

record cacheState =
  cacheDir :: string
  metadata :: "(string \<rightharpoonup> TemplateCacheInfo) option"
  metadataFile :: metadataFile
  dirExists :: "string \<Rightarrow> bool"
  events :: "event list"

text \<open>
  The outcomes that the environment decides: whether writing the metadata file,
  \<open>os.RemoveAll\<close> of a path, \<open>os.MkdirAll\<close> of the cache's parent directory, and
  \<open>git clone\<close> of a URL and branch succeed.
\<close>

record env =
  saveOk :: bool
  removeOk :: "string \<Rightarrow> bool"
  mkdirOk :: bool
  cloneOk :: "string \<Rightarrow> string \<Rightarrow> bool"

text \<open>
  Decoding into the existing map: a JSON object is merged into the map in place (a nil
  map is allocated first), \<open>null\<close> sets the map to nil, an absent member leaves it.
\<close>

fun unmarshalInto ::
  "templatesMember \<Rightarrow> (string \<rightharpoonup> TemplateCacheInfo) option \<Rightarrow> (string \<rightharpoonup> TemplateCacheInfo) option"
where
  "unmarshalInto Absent m = m"
| "unmarshalInto Null m = None"
| "unmarshalInto (Entries d) None = Some d"
| "unmarshalInto (Entries d) (Some m) = Some (m ++ d)"

text \<open>\<open>GetTemplateCachePath\<close>, for a key that is a plain name.\<close>

definition GetTemplateCachePath :: "cacheState \<Rightarrow> string \<Rightarrow> string" where
  "GetTemplateCachePath m archType = Join (cacheDir m) archType"

definition loadMetadata :: "cacheState \<Rightarrow> string option \<times> cacheState" where
  "loadMetadata m =
     (case metadataFile m of
        Missing \<Rightarrow> (None, m\<lparr>metadata := Some Map.empty\<rparr>)
      | Unreadable \<Rightarrow> (Some (''failed to read metadata file: permission denied''), m)
      | Unparsable d \<Rightarrow>
          (Some (''failed to parse metadata: invalid JSON''),
           m\<lparr>metadata := unmarshalInto d (metadata m)\<rparr>)
      | Document d \<Rightarrow> (None, m\<lparr>metadata := unmarshalInto d (metadata m)\<rparr>))"

text \<open>A lookup in a nil map finds nothing.\<close>

definition lookupTemplate ::
  "cacheState \<Rightarrow> string \<Rightarrow> TemplateCacheInfo option" where
  "lookupTemplate m archType =
     (case metadata m of None \<Rightarrow> None | Some t \<Rightarrow> t archType)"

definition IsCached :: "cacheState \<Rightarrow> string \<Rightarrow> int \<Rightarrow> bool \<times> cacheState" where
  "IsCached m archType now =
     (case loadMetadata m of
        (Some err, m1) \<Rightarrow> (False, m1)
      | (None, m1) \<Rightarrow>
          (case lookupTemplate m1 archType of
             None \<Rightarrow> (False, m1)
           | Some info \<Rightarrow> (Since now (CachedAt info) < CacheTTL, m1)))"

definition IsCacheExpired :: "cacheState \<Rightarrow> string \<Rightarrow> int \<Rightarrow> bool \<times> cacheState" where
  "IsCacheExpired m archType now =
     (case loadMetadata m of
        (Some err, m1) \<Rightarrow> (True, m1)
      | (None, m1) \<Rightarrow>
          (case lookupTemplate m1 archType of
             None \<Rightarrow> (True, m1)
           | Some info \<Rightarrow> (Since now (CachedAt info) \<ge> CacheTTL, m1)))"

text \<open>
  \<open>saveMetadata\<close> writes the whole map as the new document; a nil map is written as
  \<open>null\<close>.
\<close>

definition saveMetadata :: "env \<Rightarrow> cacheState \<Rightarrow> string option \<times> cacheState" where
  "saveMetadata e m =
     (let m1 = m\<lparr>events := events m @ [EvSaveMetadata]\<rparr> in
      if saveOk e then
        (None, m1\<lparr>metadataFile :=
                   Document (case metadata m of None \<Rightarrow> Null | Some t \<Rightarrow> Entries t)\<rparr>)
      else (Some (''failed to write metadata file: permission denied''), m1))"

text \<open>
  \<open>UpdateCacheTime\<close>. Both calls of \<open>time.Now()\<close> are taken at the instant \<open>now\<close>. An
  assignment to an entry of a nil map panics.
\<close>

definition UpdateCacheTime :: "env \<Rightarrow> cacheState \<Rightarrow> string \<Rightarrow> int \<Rightarrow> goerr \<times> cacheState" where
  "UpdateCacheTime e m archType now =
     (case loadMetadata m of
        (Some err, m1) \<Rightarrow> (Error (''failed to load metadata: '' @ err), m1)
      | (None, m1) \<Rightarrow>
          (case metadata m1 of
             None \<Rightarrow> (Panic, m1)
           | Some t \<Rightarrow>
               (case saveMetadata e
                       (m1\<lparr>metadata := Some (t(archType \<mapsto>
                            \<lparr>CachedAt = now, LastChecked = now,
                             Path = GetTemplateCachePath m1 archType, Version = []\<rparr>))\<rparr>) of
                  (Some err, m2) \<Rightarrow> (Error (''failed to save metadata: '' @ err), m2)
                | (None, m2) \<Rightarrow> (Nil, m2))))"

definition GetCacheInfo ::
  "cacheState \<Rightarrow> string \<Rightarrow> (string + TemplateCacheInfo) \<times> cacheState" where
  "GetCacheInfo m archType =
     (case loadMetadata m of
        (Some err, m1) \<Rightarrow> (Inl (''failed to load metadata: '' @ err), m1)
      | (None, m1) \<Rightarrow>
          (case lookupTemplate m1 archType of
             None \<Rightarrow> (Inl ''template not cached'', m1)
           | Some info \<Rightarrow> (Inr info, m1)))"

text \<open>\<open>os.RemoveAll\<close>; removing a path that does not exist succeeds.\<close>

definition RemoveAll :: "env \<Rightarrow> cacheState \<Rightarrow> string \<Rightarrow> string option \<times> cacheState" where
  "RemoveAll e m path =
     (let m1 = m\<lparr>events := events m @ [EvRemoveAll path]\<rparr> in
      if removeOk e path then (None, m1\<lparr>dirExists := (dirExists m)(path := False)\<rparr>)
      else (Some (''unlinkat '' @ path @ '': permission denied''), m1))"

text \<open>A delete from a nil map does nothing.\<close>

definition ClearTemplateCache :: "env \<Rightarrow> cacheState \<Rightarrow> string \<Rightarrow> goerr \<times> cacheState" where
  "ClearTemplateCache e m archType =
     (case (if dirExists m (GetTemplateCachePath m archType)
            then RemoveAll e m (GetTemplateCachePath m archType) else (None, m)) of
        (Some err, m1) \<Rightarrow> (Error (''failed to remove template cache: '' @ err), m1)
      | (None, m1) \<Rightarrow>
          (case loadMetadata m1 of
             (Some err, m2) \<Rightarrow> (Error (''failed to load metadata: '' @ err), m2)
           | (None, m2) \<Rightarrow>
               (case saveMetadata e
                       (m2\<lparr>metadata := map_option (\<lambda>t. t(archType := None)) (metadata m2)\<rparr>) of
                  (Some err, m3) \<Rightarrow> (Error (''failed to save metadata: '' @ err), m3)
                | (None, m3) \<Rightarrow> (Nil, m3))))"

text \<open>
  \<open>GetCacheAge\<close>: the age of the entry that \<open>GetCacheInfo\<close> returns.
\<close>

definition GetCacheAge ::
  "cacheState \<Rightarrow> string \<Rightarrow> int \<Rightarrow> (string + int) \<times> cacheState" where
  "GetCacheAge m archType now =
     (case GetCacheInfo m archType of
        (Inl err, m1) \<Rightarrow> (Inl err, m1)
      | (Inr info, m1) \<Rightarrow> (Inr (Since now (CachedAt info)), m1))"

text \<open>
  \<open>ClearCache\<close>. Its last argument is what \<open>os.ReadDir\<close> of the cache directory returns:
  \<open>None\<close> for an error, else the entries with their names and whether each is a directory.
  \<open>removeEntries\<close> is the loop over the entries. The metadata file is not loaded: the
  map is replaced by an empty one and saved.
\<close>

fun removeEntries ::
  "env \<Rightarrow> cacheState \<Rightarrow> (string \<times> bool) list \<Rightarrow> string option \<times> cacheState" where
  "removeEntries e m [] = (None, m)"
| "removeEntries e m ((name, isDir) # rest) =
     (if isDir then
        (case RemoveAll e m (Join (cacheDir m) name) of
           (Some err, m1) \<Rightarrow>
             (Some (''failed to remove '' @ Join (cacheDir m) name @ '': '' @ err), m1)
         | (None, m1) \<Rightarrow> removeEntries e m1 rest)
      else removeEntries e m rest)"

definition ClearCache ::
  "env \<Rightarrow> cacheState \<Rightarrow> (string \<times> bool) list option \<Rightarrow> goerr \<times> cacheState" where
  "ClearCache e m listing =
     (case listing of
        None \<Rightarrow>
          (Error (''failed to read cache directory: open '' @ cacheDir m
                  @ '': no such file or directory''), m)
      | Some entries \<Rightarrow>
          (case removeEntries e m entries of
             (Some err, m1) \<Rightarrow> (Error err, m1)
           | (None, m1) \<Rightarrow>
               (case saveMetadata e (m1\<lparr>metadata := Some Map.empty\<rparr>) of
                  (Some err, m2) \<Rightarrow> (Error (''failed to save metadata: '' @ err), m2)
                | (None, m2) \<Rightarrow> (Nil, m2))))"

section \<open>The template manager\<close>

record Template =
  Type :: string
  Name :: string
  Description :: string
  Repository :: string
  Branch :: string

definition getDefaultTemplates :: "Template list" where
  "getDefaultTemplates =
     [\<lparr>Type = ''layered'', Name = ''Layered Architecture Template'',
       Description = ''Traditional layered architecture with clear separation between presentation, business logic, and data layers'',
       Repository = ''https://github.com/PickHD/go-layered-template.git'', Branch = ''main''\<rparr>,
      \<lparr>Type = ''modular'', Name = ''Modular Architecture Template'',
       Description = ''Modular monolithic architecture with domain-driven design principles'',
       Repository = ''https://github.com/PickHD/go-modular-template.git'', Branch = ''main''\<rparr>,
      \<lparr>Type = ''hexagonal'', Name = ''Hexagonal Architecture Template'',
       Description = ''Hexagonal architecture (ports and adapters) with isolation of core logic from external concerns'',
       Repository = ''https://github.com/PickHD/go-hexagonal-template.git'', Branch = ''main''\<rparr>]"

fun GetTemplate :: "Template list \<Rightarrow> string \<Rightarrow> string + Template" where
  "GetTemplate [] archType =
     Inl (''template not found for architecture type: '' @ archType)"
| "GetTemplate (tmpl # rest) archType =
     (if Type tmpl = archType then Inr tmpl else GetTemplate rest archType)"

definition buildAuthenticatedURL :: "string \<Rightarrow> string \<Rightarrow> string" where
  "buildAuthenticatedURL repoURL token =
     (if token = [] then repoURL
      else ''https://'' @ token @ ''@''
             @ TrimPrefix (TrimPrefix repoURL ''https://'') ''http://'')"

text \<open>\<open>pullTemplate\<close> runs nothing and always fails.\<close>

definition pullTemplate :: "cacheState \<Rightarrow> string \<Rightarrow> string \<Rightarrow> string option \<times> cacheState" where
  "pullTemplate m cachePath token =
     (Some ''pull not supported, please re-clone'', m\<lparr>events := events m @ [EvPull cachePath]\<rparr>)"

text \<open>
  \<open>cloneTemplate\<close>: after the parent directory is made, \<open>git clone --depth 1 --branch\<close>
  runs with the URL that carries the token. A clone that succeeds creates the directory;
  removing its \<open>.git\<close> afterwards can only print a warning.
\<close>

definition cloneTemplate ::
  "env \<Rightarrow> cacheState \<Rightarrow> Template \<Rightarrow> string \<Rightarrow> string \<Rightarrow> string option \<times> cacheState" where
  "cloneTemplate e m template cachePath token =
     (if \<not> mkdirOk e then (Some ''failed to create cache directory: permission denied'', m)
      else
        (let repoURL = buildAuthenticatedURL (Repository template) token;
             m1 = m\<lparr>events := events m @ [EvClone repoURL (Branch template) cachePath]\<rparr>
         in if cloneOk e repoURL (Branch template)
            then (None, m1\<lparr>dirExists := (dirExists m)(cachePath := True)\<rparr>)
            else (Some ''failed to clone repository: exit status 128'', m1)))"

definition UpdateTemplate ::
  "env \<Rightarrow> Template list \<Rightarrow> cacheState \<Rightarrow> string \<Rightarrow> string \<Rightarrow> int \<Rightarrow> goerr \<times> cacheState" where
  "UpdateTemplate e templates m archType token now =
     (case GetTemplate templates archType of
        Inl err \<Rightarrow> (Error (''failed to get template: '' @ err), m)
      | Inr template \<Rightarrow>
          (let cachePath = GetTemplateCachePath m archType in
           if dirExists m cachePath then
             (case pullTemplate m cachePath token of
                (None, m1) \<Rightarrow> UpdateCacheTime e m1 archType now
              | (Some err, m1) \<Rightarrow>
                  (case RemoveAll e m1 cachePath of
                     (Some err, m2) \<Rightarrow> (Error (''failed to remove old cache: '' @ err), m2)
                   | (None, m2) \<Rightarrow>
                       (case cloneTemplate e m2 template cachePath token of
                          (Some err, m3) \<Rightarrow> (Error err, m3)
                        | (None, m3) \<Rightarrow> UpdateCacheTime e m3 archType now)))
           else
             (case cloneTemplate e m template cachePath token of
                (Some err, m1) \<Rightarrow> (Error err, m1)
              | (None, m1) \<Rightarrow> UpdateCacheTime e m1 archType now)))"

definition EnsureTemplateCached ::
  "env \<Rightarrow> Template list \<Rightarrow> cacheState \<Rightarrow> string \<Rightarrow> string \<Rightarrow> int \<Rightarrow> goerr \<times> cacheState" where
  "EnsureTemplateCached e templates m archType token now =
     (case IsCached m archType now of
        (True, m1) \<Rightarrow> (Nil, m1)
      | (False, m1) \<Rightarrow> UpdateTemplate e templates m1 archType token now)"

subsection \<open>Injecting a credential, as the specification words it\<close>

text \<open>
  The credential goes into the authority component: \<open>scheme://host/path\<close> becomes
  \<open>scheme://<credential>@host/path\<close>, with the scheme, host and path it had.
  \<open>splitScheme\<close> cuts a URL at its first \<open>://\<close>.
\<close>

fun splitScheme :: "string \<Rightarrow> (string \<times> string) option" where
  "splitScheme [] = None"
| "splitScheme (c # cs) =
     (if prefix ''://'' (c # cs) then Some ([], drop 3 (c # cs))
      else map_option (\<lambda>(s, r). (c # s, r)) (splitScheme cs))"

definition injectCredential :: "string \<Rightarrow> string \<Rightarrow> string" where
  "injectCredential url credential =
     (case splitScheme url of
        None \<Rightarrow> url
      | Some (scheme, rest) \<Rightarrow> scheme @ ''://'' @ credential @ ''@'' @ rest)"

section \<open>Concrete inputs\<close>

text \<open>
  Small manifests, sources, trees and cache states on which the operations are run:
  a manifest with two \<open>module \<close> lines and one with none, the import block of the
  end-to-end scenario, a project with an unreadable file, a hidden directory and a
  read-only file that needs no change, and an empty, an unparsable and a stale cache.
\<close>

definition manifestText :: string where
  "manifestText = ''module a/b\<newline>\<newline>go 1.21\<newline>module c/d\<newline>''"

definition manifestWorld :: world where
  "manifestWorld =
     \<lparr>files = (\<lambda>p. NoEnt)(''/p/go.mod'' := Regular manifestText True True),
      ops = [], stdout = []\<rparr>"

definition bareText :: string where
  "bareText = ''go 1.21\<newline>require x v1\<newline>''"

definition bareWorld :: world where
  "bareWorld =
     \<lparr>files = (\<lambda>p. NoEnt)(''/p/go.mod'' := Regular bareText True True),
      ops = [], stdout = []\<rparr>"


definition importsBefore :: string where
  "importsBefore =
     ''import ('' @ [newline, CHR 0x09] @ ''\"fmt\"'' @ [newline, CHR 0x09] @
     ''\"github.com/old/module/internal/config\"'' @ [newline, CHR 0x09] @
     ''\"github.com/gin-gonic/gin\"'' @ [newline] @ '')''"

definition importsAfter :: string where
  "importsAfter =
     ''import ('' @ [newline, CHR 0x09] @ ''\"fmt\"'' @ [newline, CHR 0x09] @
     ''\"github.com/new/module/internal/config\"'' @ [newline, CHR 0x09] @
     ''\"github.com/gin-gonic/gin\"'' @ [newline] @ '')''"


definition projTree :: node where
  "projTree =
     DirNode True
       [(''.git'', DirNode True [(''hook.go'', FileNode)]),
        (''a.go'', FileNode),
        (''b.go'', FileNode),
        (''go.mod'', FileNode),
        (''pkg'', DirNode True [(''c.go'', FileNode)])]"

definition projWorld :: world where
  "projWorld =
     \<lparr>files = (\<lambda>p. NoEnt)
        (''/proj/a.go'' := Regular ''import \"a/b\"'' False True,
         ''/proj/b.go'' := Regular ''import \"a/b/sub\"'' True True,
         ''/proj/pkg/c.go'' := Regular ''import \"fmt\"'' True False,
         ''/proj/.git/hook.go'' := Regular ''import \"a/b\"'' True True,
         ''/proj/go.mod'' := Regular ''module a/b'' True True),
      ops = [], stdout = []\<rparr>"


definition emptyCache :: cacheState where
  "emptyCache =
     \<lparr>cacheDir = ''/home/u/.cache/.pick-your-go'', metadata = Some Map.empty,
      metadataFile = Missing, dirExists = (\<lambda>p. False), events = []\<rparr>"

definition corruptCache :: cacheState where
  "corruptCache = emptyCache\<lparr>metadataFile := Unparsable Absent\<rparr>"

definition allOk :: env where
  "allOk = \<lparr>saveOk = True, removeOk = (\<lambda>p. True), mkdirOk = True, cloneOk = (\<lambda>u b. True)\<rparr>"


definition staleCache :: cacheState where
  "staleCache =
     emptyCache\<lparr>dirExists := (\<lambda>p. p = ''/home/u/.cache/.pick-your-go/layered'')\<rparr>"

definition layeredTemplate :: Template where
  "layeredTemplate =
     \<lparr>Type = ''layered'', Name = ''Layered Architecture Template'',
       Description = ''Traditional layered architecture with clear separation between presentation, business logic, and data layers'',
       Repository = ''https://github.com/PickHD/go-layered-template.git'', Branch = ''main''\<rparr>"

section \<open>Lines, trimming and the manifest lines\<close>

lemma splitLines_nonempty [simp]: "splitLines s \<noteq> []"
  by (induction s) (auto split: list.splits)

lemma joinLines_Cons: "ls \<noteq> [] \<Longrightarrow> joinLines (l # ls) = l @ newline # joinLines ls"
  by (cases ls) auto

lemma joinLines_splitLines [simp]: "joinLines (splitLines s) = s"
proof (induction s)
  case Nil
  show ?case by simp
next
  case (Cons c cs)
  obtain l ls where sp: "splitLines cs = l # ls"
    by (cases "splitLines cs") auto
  with Cons show ?case
    by (cases ls) (auto simp: joinLines_Cons)
qed

lemma splitLines_no_newline: "l \<in> set (splitLines s) \<Longrightarrow> newline \<notin> set l"
proof (induction s arbitrary: l)
  case Nil
  then show ?case by simp
next
  case (Cons c cs)
  obtain m ms where sp: "splitLines cs = m # ms"
    by (cases "splitLines cs") auto
  with Cons show ?case
    by (auto split: if_splits)
qed

lemma splitLines_append_line:
  "newline \<notin> set l \<Longrightarrow> splitLines (l @ newline # s) = l # splitLines s"
  by (induction l) auto

lemma splitLines_single: "newline \<notin> set l \<Longrightarrow> splitLines l = [l]"
  by (induction l) auto

lemma splitLines_joinLines:
  "ls \<noteq> [] \<Longrightarrow> \<forall>l\<in>set ls. newline \<notin> set l \<Longrightarrow> splitLines (joinLines ls) = ls"
proof (induction ls rule: joinLines.induct)
  case 1
  then show ?case by simp
next
  case (2 l)
  then show ?case by (simp add: splitLines_single)
next
  case (3 l m ls)
  then show ?case by (simp add: splitLines_append_line)
qed

lemma setModuleLine_first:
  "i < length ls \<Longrightarrow> prefix ''module '' (ls ! i) \<Longrightarrow> \<forall>j<i. \<not> prefix ''module '' (ls ! j)
   \<Longrightarrow> setModuleLine ls m = ls[i := ''module '' @ m]"
proof (induction ls arbitrary: i)
  case Nil
  then show ?case by simp
next
  case (Cons l ls)
  show ?case
  proof (cases i)
    case 0
    with Cons.prems show ?thesis by simp
  next
    case (Suc k)
    with Cons.prems have "\<not> prefix ''module '' l" by auto
    moreover have "setModuleLine ls m = ls[k := ''module '' @ m]"
      using Cons.prems Suc by (intro Cons.IH) auto
    ultimately show ?thesis using Suc by simp
  qed
qed

lemma setModuleLine_none:
  "\<forall>l\<in>set ls. \<not> prefix ''module '' l \<Longrightarrow> setModuleLine ls m = ls"
  by (induction ls) auto

lemma findModuleLine_none:
  "\<forall>l\<in>set ls. \<not> prefix ''module '' l \<Longrightarrow> findModuleLine ls = None"
  by (induction ls) auto

lemma findModuleLine_set:
  "\<exists>l\<in>set ls. prefix ''module '' l \<Longrightarrow>
   findModuleLine (setModuleLine ls m) = Some (TrimSpace m)"
  by (induction ls) (auto simp: TrimPrefix_def)

lemma setModuleLine_nonempty: "ls \<noteq> [] \<Longrightarrow> setModuleLine ls m \<noteq> []"
  by (cases ls) auto


lemma newline_notin_module: "newline \<notin> set ''module ''"
  by (simp add: newline_def)

lemma set_setModuleLine: "set (setModuleLine ls m) \<subseteq> insert (''module '' @ m) (set ls)"
  by (induction ls) auto

lemma setModuleLine_no_newline:
  assumes "\<forall>l\<in>set ls. newline \<notin> set l" and "newline \<notin> set m"
  shows "\<forall>l\<in>set (setModuleLine ls m). newline \<notin> set l"
proof
  fix l assume "l \<in> set (setModuleLine ls m)"
  then have "l = ''module '' @ m \<or> l \<in> set ls"
    using set_setModuleLine by blast
  moreover have "newline \<notin> set (''module '' @ m)"
    using newline_notin_module assms(2) by (simp only: set_append Un_iff) blast
  ultimately show "newline \<notin> set l" using assms(1) by blast
qed




lemma stripLeading_None: "leading es s = None \<Longrightarrow> stripLeading es s = s"
  by (simp add: stripLeading.simps)

lemma leading_complete: "e \<in> set es \<Longrightarrow> e \<noteq> [] \<Longrightarrow> prefix e s \<Longrightarrow> leading es s \<noteq> None"
  by (induction es) auto

lemma leading_Some: "leading es s = Some e \<Longrightarrow> e \<noteq> [] \<and> prefix e s \<and> e \<in> set es"
  by (induction es) (auto split: if_splits)

lemma leading_Nil [simp]: "leading es [] = None"
  by (induction es) auto

lemma whitespaceFree_leading: "whitespaceFree s \<Longrightarrow> leading spaceEncodings s = None"
  by (cases s) auto

lemma whitespaceFree_append: "whitespaceFree (p @ s) \<Longrightarrow> whitespaceFree s"
  by (induction p) auto

lemma whitespaceFree_trailing:
  assumes "whitespaceFree s"
  shows "leading (map rev spaceEncodings) (rev s) = None"
proof (rule ccontr)
  assume "leading (map rev spaceEncodings) (rev s) \<noteq> None"
  then obtain r where r: "leading (map rev spaceEncodings) (rev s) = Some r" by auto
  then have "r \<noteq> []" "prefix r (rev s)" "r \<in> set (map rev spaceEncodings)"
    using leading_Some by blast+
  then obtain e where e: "e \<in> set spaceEncodings" "r = rev e" by auto
  from \<open>prefix r (rev s)\<close> e have "suffix e s"
    by (metis rev_rev_ident suffix_to_prefix)
  then obtain p where "s = p @ e" by (auto simp: suffix_def)
  with assms have "whitespaceFree e" using whitespaceFree_append by blast
  then have "leading spaceEncodings e = None" by (rule whitespaceFree_leading)
  moreover have "e \<noteq> []" using \<open>r \<noteq> []\<close> e by simp
  ultimately show False using leading_complete [OF e(1), of e] by simp
qed

lemma TrimSpace_whitespaceFree: "whitespaceFree s \<Longrightarrow> TrimSpace s = s"
  by (simp add: TrimSpace_def stripLeading_None whitespaceFree_leading whitespaceFree_trailing)

lemma whitespaceFree_no_newline: "whitespaceFree s \<Longrightarrow> newline \<notin> set s"
proof (induction s)
  case Nil
  then show ?case by simp
next
  case (Cons c cs)
  have "[newline] \<in> set spaceEncodings" by (simp add: spaceEncodings_def newline_def)
  then have "leading spaceEncodings (newline # cs) \<noteq> None"
    by (rule leading_complete) auto
  with Cons show ?case by auto
qed

section \<open>The manifest operations\<close>

lemma updateGoModule_ok:
  assumes "IsAbs p" "files w p = Regular c True True"
  shows "updateGoModule w p m =
           (None, w\<lparr>ops := ops w @ [OpRead p, OpWrite p],
                    files := (files w)(p := Regular (joinLines (setModuleLine (splitLines c) m)) True True)\<rparr>)"
  using assms by (simp add: updateGoModule_def StatNotExist_def ReadFile_def WriteFile_def Let_def)

lemma updateGoModule_success:
  assumes "updateGoModule w p m = (None, w')" "files w p = Regular c r wr"
  shows "IsAbs p \<and> r \<and> wr"
  using assms
  by (auto simp: updateGoModule_def StatNotExist_def ReadFile_def WriteFile_def Let_def
           split: if_splits)

lemma extract_ok:
  assumes "IsAbs p" "files w p = Regular c True wr"
  shows "fst (extractOriginalModulePath w p) =
           (case findModuleLine (splitLines c) of
              Some n \<Rightarrow> Inr n | None \<Rightarrow> Inl ''no module declaration found in go.mod'')"
  using assms
  by (simp add: extractOriginalModulePath_def StatNotExist_def ReadFile_def Let_def
           split: option.splits)

text \<open>
  Claim C8. When the manifest is readable and writable and line \<open>i\<close> is its first line
  starting with \<open>module \<close>, \<open>updateGoModule\<close> succeeds, and the file it writes is the
  old list of lines with line \<open>i\<close> alone replaced by \<open>module <newIdentity>\<close>, joined by
  newlines: every other line (later \<open>module \<close> lines too) and the order of the lines are
  as before, and no other file changes.
\<close>

theorem updateGoModule_rewrites_first_module_line_only:
  assumes "IsAbs p" and "files w p = Regular c True True"
    and "ls = splitLines c"
    and "i < length ls" and "prefix ''module '' (ls ! i)"
    and "\<forall>j<i. \<not> prefix ''module '' (ls ! j)"
  shows "updateGoModule w p m =
           (None, w\<lparr>ops := ops w @ [OpRead p, OpWrite p],
                    files := (files w)(p := Regular (joinLines (ls[i := ''module '' @ m])) True True)\<rparr>)"
proof -
  have "setModuleLine (splitLines c) m = ls[i := ''module '' @ m]"
    using assms(3-6) setModuleLine_first by blast
  then show ?thesis
    using updateGoModule_ok [OF assms(1,2), of m] by (simp del: list_update.simps)
qed

text \<open>
  Claim C10. When no line of a readable and writable manifest starts with \<open>module \<close>,
  \<open>updateGoModule\<close> returns nil after writing the file back (an \<open>OpWrite\<close> is recorded)
  with every file's content unchanged, whereas \<open>extractOriginalModulePath\<close> on the same
  manifest fails with "no module declaration found in go.mod".
\<close>

theorem updateGoModule_without_module_line:
  assumes "IsAbs p" and "files w p = Regular c True True"
    and "\<forall>l\<in>set (splitLines c). \<not> prefix ''module '' l"
  shows "updateGoModule w p m = (None, w\<lparr>ops := ops w @ [OpRead p, OpWrite p]\<rparr>)
         \<and> fst (extractOriginalModulePath w p) = Inl ''no module declaration found in go.mod''"
proof -
  have "setModuleLine (splitLines c) m = splitLines c"
    using assms(3) by (rule setModuleLine_none)
  moreover have "(files w)(p := Regular c True True) = files w"
    using assms(2) by (metis fun_upd_triv)
  ultimately have "updateGoModule w p m = (None, w\<lparr>ops := ops w @ [OpRead p, OpWrite p]\<rparr>)"
    using updateGoModule_ok [OF assms(1,2), of m] by simp
  moreover have "findModuleLine (splitLines c) = None"
    using assms(3) by (rule findModuleLine_none)
  then have "fst (extractOriginalModulePath w p) = Inl ''no module declaration found in go.mod''"
    using extract_ok [OF assms(1,2)] by simp
  ultimately show ?thesis by simp
qed

text \<open>
  Claim C5. If the manifest has a line starting with \<open>module \<close> and \<open>updateGoModule\<close>
  succeeds with a non-empty identity free of white space, then
  \<open>extractOriginalModulePath\<close> on the resulting file system returns exactly that identity.
\<close>

theorem extract_after_update_roundtrip:
  assumes "updateGoModule w p m = (None, w')" and "files w p = Regular c r wr"
    and "\<exists>l\<in>set (splitLines c). prefix ''module '' l"
    and "whitespaceFree m" and "m \<noteq> []"
  shows "fst (extractOriginalModulePath w' p) = Inr m"
proof -
  have abs: "IsAbs p" and r: "r" and wr: "wr"
    using updateGoModule_success [OF assms(1,2)] by auto
  let ?ls = "setModuleLine (splitLines c) m"
  have f: "files w p = Regular c True True" using assms(2) r wr by simp
  have "w' = w\<lparr>ops := ops w @ [OpRead p, OpWrite p],
                files := (files w)(p := Regular (joinLines ?ls) True True)\<rparr>"
    using updateGoModule_ok [OF abs f, of m] assms(1) by simp
  then have f': "files w' p = Regular (joinLines ?ls) True True" by simp
  have "newline \<notin> set m" using assms(4) by (rule whitespaceFree_no_newline)
  then have "\<forall>l\<in>set ?ls. newline \<notin> set l"
    using setModuleLine_no_newline splitLines_no_newline by blast
  moreover have "?ls \<noteq> []" by (simp add: setModuleLine_nonempty)
  ultimately have "splitLines (joinLines ?ls) = ?ls" by (simp add: splitLines_joinLines)
  moreover have "findModuleLine ?ls = Some (TrimSpace m)"
    using assms(3) by (rule findModuleLine_set)
  moreover have "TrimSpace m = m" using assms(4) by (rule TrimSpace_whitespaceFree)
  ultimately show ?thesis using extract_ok [OF abs f'] by simp
qed

lemma manifestText_lines:
  "splitLines manifestText = [''module a/b'', [], ''go 1.21'', ''module c/d'', []]"
  by (simp add: manifestText_def newline_def)

lemma bareText_lines: "splitLines bareText = [''go 1.21'', ''require x v1'', []]"
  by (simp add: bareText_def newline_def)

theorem updateGoModule_rewrites_first_module_line_only_witness:
  "updateGoModule manifestWorld ''/p/go.mod'' ''x/y'' =
     (None, manifestWorld\<lparr>ops := ops manifestWorld @ [OpRead ''/p/go.mod'', OpWrite ''/p/go.mod''],
        files := (files manifestWorld)(''/p/go.mod'' :=
          Regular (joinLines [''module x/y'', [], ''go 1.21'', ''module c/d'', []]) True True)\<rparr>)"
proof -
  let ?ls = "splitLines manifestText"
  have a: "IsAbs ''/p/go.mod''" by (simp add: IsAbs_def)
  have f: "files manifestWorld ''/p/go.mod'' = Regular manifestText True True"
    by (simp add: manifestWorld_def)
  have i: "0 < length ?ls" by (simp add: manifestText_lines)
  have p: "prefix ''module '' (?ls ! 0)" by (simp add: manifestText_lines)
  have n: "\<forall>j<(0::nat). \<not> prefix ''module '' (?ls ! j)" by simp
  show ?thesis
    using updateGoModule_rewrites_first_module_line_only [OF a f refl i p n, of "''x/y''"]
    by (simp add: manifestText_lines)
qed

theorem updateGoModule_without_module_line_witness:
  "updateGoModule bareWorld ''/p/go.mod'' ''x/y'' =
     (None, bareWorld\<lparr>ops := ops bareWorld @ [OpRead ''/p/go.mod'', OpWrite ''/p/go.mod'']\<rparr>)
   \<and> fst (extractOriginalModulePath bareWorld ''/p/go.mod'') =
       Inl ''no module declaration found in go.mod''"
proof -
  have a: "IsAbs ''/p/go.mod''" by (simp add: IsAbs_def)
  have f: "files bareWorld ''/p/go.mod'' = Regular bareText True True"
    by (simp add: bareWorld_def)
  have n: "\<forall>l\<in>set (splitLines bareText). \<not> prefix ''module '' l"
    by (simp add: bareText_lines)
  show ?thesis
    using updateGoModule_without_module_line [OF a f n, of "''x/y''"] .
qed

theorem extract_after_update_roundtrip_witness:
  "fst (extractOriginalModulePath (snd (updateGoModule manifestWorld ''/p/go.mod'' ''x/y'')) ''/p/go.mod'')
     = Inr ''x/y''"
proof -
  have a: "IsAbs ''/p/go.mod''" by (simp add: IsAbs_def)
  have f: "files manifestWorld ''/p/go.mod'' = Regular manifestText True True"
    by (simp add: manifestWorld_def)
  have u: "updateGoModule manifestWorld ''/p/go.mod'' ''x/y'' =
             (None, snd (updateGoModule manifestWorld ''/p/go.mod'' ''x/y''))"
    using updateGoModule_ok [OF a f, of "''x/y''"] by simp
  have e: "\<exists>l\<in>set (splitLines manifestText). prefix ''module '' l"
    by (simp add: manifestText_lines)
  have ws: "whitespaceFree ''x/y''" by (simp add: spaceEncodings_def)
  have ne: "''x/y'' \<noteq> []" by simp
  show ?thesis
    using extract_after_update_roundtrip [OF u f e ws ne] .
qed

section \<open>The import rewrite\<close>

lemma Index_None_iff: "Index s c = None \<longleftrightarrow> c \<notin> set s"
  by (induction s) auto

lemma Index_first: "c \<notin> set b \<Longrightarrow> Index (b @ c # r) c = Some (length b)"
  by (induction b) auto

lemma Replace1_prefix: "prefix old v \<Longrightarrow> Replace1 v old new = new @ drop (length old) v"
  by (cases v) auto

lemma match_prefix: "v = old \<or> prefix (old @ ''/'') v \<Longrightarrow> prefix old v"
  by (auto dest: append_prefixD)

lemma pieces_no_quote: "quote \<notin> set s \<Longrightarrow> pieces s = [Outside s]"
proof -
  assume "quote \<notin> set s"
  then have "dropWhile (\<lambda>c. c \<noteq> quote) s = []" by (auto simp: dropWhile_eq_Nil_conv)
  then show ?thesis by (subst pieces.simps) (simp only: list.case)
qed

lemma dropWhile_first:
  "quote \<notin> set b \<Longrightarrow> dropWhile (\<lambda>c. c \<noteq> quote) (b @ quote # r) = quote # r"
  by (induction b) auto

lemma takeWhile_first:
  "quote \<notin> set b \<Longrightarrow> takeWhile (\<lambda>c. c \<noteq> quote) (b @ quote # r) = b"
  by (induction b) auto

lemma pieces_one_quote:
  assumes "quote \<notin> set b" "quote \<notin> set r"
  shows "pieces (b @ quote # r) = [Outside (b @ quote # r)]"
proof -
  have "dropWhile (\<lambda>c. c \<noteq> quote) r = []"
    using assms(2) by (auto simp: dropWhile_eq_Nil_conv)
  then show ?thesis
    by (subst pieces.simps) (simp only: dropWhile_first [OF assms(1)] list.case)
qed

lemma pieces_pair:
  assumes "quote \<notin> set b" "quote \<notin> set v"
  shows "pieces (b @ quote # v @ quote # r) = Outside b # Quoted v # pieces r"
  by (subst pieces.simps)
     (simp add: dropWhile_first [OF assms(1)] dropWhile_first [OF assms(2)]
        takeWhile_first [OF assms(1)] takeWhile_first [OF assms(2)])

lemma render_append: "render (ps @ qs) = render ps @ render qs"
  by (induction ps rule: render.induct) auto

lemma split_first_quote:
  "quote \<in> set s \<Longrightarrow> \<exists>b r. s = b @ quote # r \<and> quote \<notin> set b"
  by (metis split_list_first)

lemma scan_done_none:
  assumes "quote \<notin> set s"
  shows "scanQuotes old new (a @ s) (length a) = Some (a @ s)"
proof -
  have "Index s quote = None" using assms by (simp add: Index_None_iff)
  then show ?thesis by (subst scanQuotes.simps) (simp add: sliceFrom_def)
qed

lemma scan_done_one:
  assumes "quote \<notin> set b" "quote \<notin> set r"
  shows "scanQuotes old new (a @ b @ quote # r) (length a) = Some (a @ b @ quote # r)"
proof -
  have "Index r quote = None" using assms(2) by (simp add: Index_None_iff)
  then show ?thesis
    by (subst scanQuotes.simps) (simp add: sliceFrom_def Index_first [OF assms(1)])
qed

lemma scan_step_keep:
  assumes "quote \<notin> set b" "quote \<notin> set v" "\<not> (v = old \<or> prefix (old @ ''/'') v)"
  shows "scanQuotes old new (a @ b @ quote # v @ quote # r) (length a)
       = scanQuotes old new ((a @ b @ quote # v @ [quote]) @ r) (length (a @ b @ quote # v @ [quote]))"
  using assms(3)
  by (subst scanQuotes.simps)
     (simp add: sliceFrom_def slice_def Index_first [OF assms(1)] Index_first [OF assms(2)]
        add.commute add.left_commute)

lemma scan_step_match:
  assumes "quote \<notin> set b" "quote \<notin> set v" "v = old \<or> prefix (old @ ''/'') v"
  shows "scanQuotes old new (a @ b @ quote # v @ quote # r) (length a)
       = scanQuotes old new ((a @ b @ quote # (new @ drop (length old) v) @ [quote]) @ r)
           (length (a @ b @ quote # (new @ drop (length old) v) @ [quote]))"
proof -
  have rp: "Replace1 v old new = new @ drop (length old) v"
    using assms(3) by (intro Replace1_prefix match_prefix)
  show ?thesis
    using assms(3)
    by (subst scanQuotes.simps)
       (simp add: sliceFrom_def slice_def sliceTo_def Index_first [OF assms(1)]
          Index_first [OF assms(2)] rp add.commute add.left_commute)
qed

lemma scanQuotes_rewriteQuoted:
  "scanQuotes old new (a @ s) (length a) = Some (a @ rewriteQuoted old new s)"
proof (induction "length s" arbitrary: a s rule: less_induct)
  case less
  show ?case
  proof (cases "quote \<in> set s")
    case False
    then show ?thesis
      by (simp add: scan_done_none rewriteQuoted_def pieces_no_quote)
  next
    case True
    then obtain b r where s: "s = b @ quote # r" and b: "quote \<notin> set b"
      using split_first_quote by blast
    show ?thesis
    proof (cases "quote \<in> set r")
      case False
      then show ?thesis
        using b by (simp add: s scan_done_one rewriteQuoted_def pieces_one_quote)
    next
      case True
      then obtain v r' where r: "r = v @ quote # r'" and v: "quote \<notin> set v"
        using split_first_quote by blast
      have len: "length r' < length s" by (simp add: s r)
      have pcs: "pieces s = Outside b # Quoted v # pieces r'"
        by (simp add: s r pieces_pair [OF b v])
      show ?thesis
      proof (cases "v = old \<or> prefix (old @ ''/'') v")
        case True
        have "scanQuotes old new (a @ s) (length a)
            = Some ((a @ b @ quote # (new @ drop (length old) v) @ [quote]) @ rewriteQuoted old new r')"
          unfolding s r scan_step_match [OF b v True] by (rule less.hyps [OF len])
        then show ?thesis using True by (simp add: rewriteQuoted_def pcs)
      next
        case False
        have "scanQuotes old new (a @ s) (length a)
            = Some ((a @ b @ quote # v @ [quote]) @ rewriteQuoted old new r')"
          unfolding s r scan_step_keep [OF b v False] by (rule less.hyps [OF len])
        then show ?thesis using False by (simp add: rewriteQuoted_def pcs)
      qed
    qed
  qed
qed

lemma replaceModulePathInLine_rewriteQuoted:
  "replaceModulePathInLine line old new = Some (rewriteQuoted old new line)"
  using scanQuotes_rewriteQuoted [of old new "[]" line]
  by (simp add: replaceModulePathInLine_def)

lemma render_pieces: "render (pieces s) = s"
proof (induction "length s" arbitrary: s rule: less_induct)
  case less
  show ?case
  proof (cases "quote \<in> set s")
    case False
    then show ?thesis by (simp add: pieces_no_quote)
  next
    case True
    then obtain b r where s: "s = b @ quote # r" and b: "quote \<notin> set b"
      using split_first_quote by blast
    show ?thesis
    proof (cases "quote \<in> set r")
      case False
      then show ?thesis using b by (simp add: s pieces_one_quote)
    next
      case True
      then obtain v r' where r: "r = v @ quote # r'" and v: "quote \<notin> set v"
        using split_first_quote by blast
      have "length r' < length s" by (simp add: s r)
      then have "render (pieces r') = r'" by (rule less.hyps)
      then show ?thesis by (simp add: s r pieces_pair [OF b v])
    qed
  qed
qed

lemma rewriteQuoted_no_quote: "quote \<notin> set s \<Longrightarrow> rewriteQuoted old new s = s"
  by (simp add: rewriteQuoted_def pieces_no_quote)


lemma stripLeading_keeps:
  "c \<in> set s \<Longrightarrow> \<forall>e\<in>set es. c \<notin> set e \<Longrightarrow> c \<in> set (stripLeading es s)"
proof (induction es s rule: stripLeading.induct)
  case (1 es s)
  show ?case
  proof (cases "leading es s")
    case None
    then show ?thesis using "1.prems" by (simp add: stripLeading.simps)
  next
    case (Some e)
    then have e: "prefix e s" "e \<in> set es" by (auto dest: leading_Some)
    then obtain t where t: "s = e @ t" by (auto simp: prefix_def)
    have "c \<notin> set e" using e(2) "1.prems"(2) by blast
    then have "c \<in> set (drop (length e) s)" using "1.prems"(1) t by auto
    then have "c \<in> set (stripLeading es (drop (length e) s))"
      using "1.IH" [OF Some] "1.prems"(2) by blast
    then show ?thesis using Some by (simp add: stripLeading.simps)
  qed
qed

lemma quote_not_space: "\<forall>e\<in>set spaceEncodings. quote \<notin> set e"
  by (simp add: spaceEncodings_def quote_def)

lemma TrimSpace_keeps_quote: "quote \<in> set l \<Longrightarrow> quote \<in> set (TrimSpace l)"
proof -
  assume "quote \<in> set l"
  then have "quote \<in> set (rev (stripLeading spaceEncodings l))"
    using stripLeading_keeps quote_not_space by simp
  moreover have "\<forall>e\<in>set (map rev spaceEncodings). quote \<notin> set e"
    using quote_not_space by simp
  ultimately have "quote \<in> set (stripLeading (map rev spaceEncodings) (rev (stripLeading spaceEncodings l)))"
    by (rule stripLeading_keeps)
  then show ?thesis by (simp add: TrimSpace_def)
qed

lemma opener_no_quote: "TrimSpace l = ''import ('' \<Longrightarrow> quote \<notin> set l"
proof
  assume "TrimSpace l = ''import (''" "quote \<in> set l"
  then have "quote \<in> set ''import (''" using TrimSpace_keeps_quote by metis
  then show False by (simp add: quote_def)
qed

lemma closer_no_quote: "TrimSpace l = '')'' \<Longrightarrow> quote \<notin> set l"
proof
  assume "TrimSpace l = '')''" "quote \<in> set l"
  then have "quote \<in> set '')''" using TrimSpace_keeps_quote by metis
  then show False by (simp add: quote_def)
qed

lemma insideBlock_0: "\<not> insideBlock ls 0"
  by (simp add: insideBlock_def)

lemma insideBlock_Suc_opener:
  "TrimSpace (ls ! i) = ''import ('' \<Longrightarrow> insideBlock ls (Suc i)"
  unfolding insideBlock_def by (rule exI [of _ i]) auto

lemma insideBlock_Suc_closer:
  assumes "TrimSpace (ls ! i) = '')''"
  shows "\<not> insideBlock ls (Suc i)"
proof
  assume "insideBlock ls (Suc i)"
  then obtain j where j: "j < Suc i" "TrimSpace (ls ! j) = ''import (''"
    "\<forall>k. j < k \<and> k < Suc i \<longrightarrow> TrimSpace (ls ! k) \<noteq> '')''"
    unfolding insideBlock_def by blast
  have "j \<noteq> i" using j(2) assms by auto
  then have "j < i" using j(1) by simp
  then show False using j(3) assms by auto
qed

lemma insideBlock_Suc_other:
  assumes "TrimSpace (ls ! i) \<noteq> ''import (''" "TrimSpace (ls ! i) \<noteq> '')''"
  shows "insideBlock ls (Suc i) = insideBlock ls i"
proof
  assume "insideBlock ls (Suc i)"
  then obtain j where j: "j < Suc i" "TrimSpace (ls ! j) = ''import (''"
    "\<forall>k. j < k \<and> k < Suc i \<longrightarrow> TrimSpace (ls ! k) \<noteq> '')''"
    unfolding insideBlock_def by blast
  have "j \<noteq> i" using j(2) assms(1) by auto
  then have "j < i" using j(1) by simp
  moreover have "\<forall>k. j < k \<and> k < i \<longrightarrow> TrimSpace (ls ! k) \<noteq> '')''"
    using j(3) by auto
  ultimately show "insideBlock ls i" unfolding insideBlock_def using j(2) by blast
next
  assume "insideBlock ls i"
  then obtain j where j: "j < i" "TrimSpace (ls ! j) = ''import (''"
    "\<forall>k. j < k \<and> k < i \<longrightarrow> TrimSpace (ls ! k) \<noteq> '')''"
    unfolding insideBlock_def by blast
  have "\<forall>k. j < k \<and> k < Suc i \<longrightarrow> TrimSpace (ls ! k) \<noteq> '')''"
    using j(3) assms(2) by (auto simp: less_Suc_eq)
  moreover have "j < Suc i" using j(1) by simp
  ultimately show "insideBlock ls (Suc i)" unfolding insideBlock_def using j(2) by blast
qed

lemma rewriteLines_candidate:
  "i \<le> length ls \<Longrightarrow>
   rewriteLines (insideBlock ls i) (drop i ls) old new =
     Some (map (\<lambda>k. if candidate ls k then rewriteQuoted old new (ls ! k) else ls ! k)
             [i..<length ls])"
proof (induction "length ls - i" arbitrary: i)
  case 0
  then show ?case by simp
next
  case (Suc n)
  let ?f = "\<lambda>k. if candidate ls k then rewriteQuoted old new (ls ! k) else ls ! k"
  have i: "i < length ls" using Suc.hyps(2) by simp
  have d: "drop i ls = ls ! i # drop (Suc i) ls" using i by (simp add: Cons_nth_drop_Suc)
  have u: "[i..<length ls] = i # [Suc i..<length ls]" using i by (simp add: upt_conv_Cons)
  have IH: "rewriteLines (insideBlock ls (Suc i)) (drop (Suc i) ls) old new =
              Some (map ?f [Suc i..<length ls])"
    using Suc.hyps(1) [of "Suc i"] Suc.hyps(2) i by simp
  consider (op) "TrimSpace (ls ! i) = ''import (''"
    | (cl) "TrimSpace (ls ! i) \<noteq> ''import (''" "insideBlock ls i" "TrimSpace (ls ! i) = '')''"
    | (cl') "TrimSpace (ls ! i) \<noteq> ''import (''" "\<not> insideBlock ls i" "TrimSpace (ls ! i) = '')''"
    | (other) "TrimSpace (ls ! i) \<noteq> ''import (''" "TrimSpace (ls ! i) \<noteq> '')''"
    by blast
  then show ?case
  proof cases
    case op
    have "?f i = ls ! i" using opener_no_quote [OF op] by (simp add: rewriteQuoted_no_quote)
    moreover have "insideBlock ls (Suc i)" using op by (rule insideBlock_Suc_opener)
    ultimately show ?thesis using IH op unfolding d u by simp
  next
    case cl
    have "?f i = ls ! i" using closer_no_quote [OF cl(3)] by (simp add: rewriteQuoted_no_quote)
    moreover have "\<not> insideBlock ls (Suc i)" using cl(3) by (rule insideBlock_Suc_closer)
    ultimately show ?thesis using IH cl unfolding d u by simp
  next
    case cl'
    have "?f i = ls ! i" using closer_no_quote [OF cl'(3)] by (simp add: rewriteQuoted_no_quote)
    moreover have "\<not> insideBlock ls (Suc i)" using cl'(3) by (rule insideBlock_Suc_closer)
    ultimately show ?thesis using IH cl' unfolding d u
      by (simp add: replaceModulePathInLine_rewriteQuoted rewriteQuoted_no_quote closer_no_quote)
  next
    case other
    have "insideBlock ls (Suc i) = insideBlock ls i"
      using other by (rule insideBlock_Suc_other)
    then show ?thesis using IH other unfolding d u
      by (auto simp: replaceModulePathInLine_rewriteQuoted candidate_def)
  qed
qed

lemma replaceImportPaths_rewriteImports:
  "replaceImportPaths content old new = Some (rewriteImports old new content)"
  using rewriteLines_candidate [of 0 "splitLines content" old new]
  by (simp add: replaceImportPaths_def rewriteImports_def insideBlock_0)

text \<open>
  Claim C1. For every file content and every pair of identities (so for every non-empty,
  distinct pair), \<open>replaceImportPaths\<close> returns, without a panic, the content in which
  exactly this has changed: on each candidate line (a line that, trimmed, starts with
  \<open>import \<close>, or a line with the cursor inside a block opened by a line that is, trimmed,
  \<open>import (\<close> and not yet closed by a line that is, trimmed, \<open>)\<close>), each quoted value that
  equals \<open>oldIdentity\<close> or begins with \<open>oldIdentity/\<close> has that prefix replaced by
  \<open>newIdentity\<close>, the remainder kept; every such value of the line is rewritten, not only
  the first. All other quoted values, the text outside the quotes (alias tokens too) and
  the lines that are no candidates are as before: \<open>rewriteImports\<close> changes nothing but
  those values, since cutting a line into its pieces loses nothing (\<open>render_pieces\<close>).
\<close>

theorem replaceImportPaths_rewrites_exactly:
  "replaceImportPaths content old new = Some (rewriteImports old new content)"
proof -
  let ?ls = "splitLines content"
  have start: "\<not> insideBlock ?ls 0" by (rule insideBlock_0)
  have "rewriteLines (insideBlock ?ls 0) (drop 0 ?ls) old new =
          Some (map (\<lambda>k. if candidate ?ls k then rewriteQuoted old new (?ls ! k) else ?ls ! k)
                  [0..<length ?ls])"
    by (rule rewriteLines_candidate) simp
  then have "rewriteLines False ?ls old new =
          Some (map (\<lambda>k. if candidate ?ls k then rewriteQuoted old new (?ls ! k) else ?ls ! k)
                  [0..<length ?ls])"
    using start by simp
  then show ?thesis by (simp add: replaceImportPaths_def rewriteImports_def)
qed

lemma importsBefore_rewritten:
  "replaceImportPaths importsBefore ''github.com/old/module'' ''github.com/new/module'' = Some importsAfter"
  by code_simp

theorem replaceImportPaths_rewrites_exactly_witness:
  "rewriteImports ''github.com/old/module'' ''github.com/new/module'' importsBefore = importsAfter"
  using replaceImportPaths_rewrites_exactly
          [of importsBefore "''github.com/old/module''" "''github.com/new/module''"]
  by (simp add: importsBefore_rewritten)

section \<open>The tree-wide rewrite\<close>
lemma walkFn_source_file:
  assumes "suffix ''.go'' p" "Base p \<noteq> ''go.mod''"
  shows "fst (walkFn old new w p False None) = Nil"
    and "files (snd (walkFn old new w p False None)) = (files w)(p := fileAfter old new (files w p))"
    and "stdout (snd (walkFn old new w p False None)) = stdout w @ fileWarning old new p (files w p)"
  using assms
  by (auto simp: walkFn_def updateImportPathsInFile_def ReadFile_def WriteFile_def Let_def
        Printf_def fileAfter_def fileWarning_def replaceImportPaths_rewriteImports
        split: fnode.splits)

lemma walkFn_file:
  "fst (walkFn old new w p False None) = Nil \<and>
   pairOf (snd (walkFn old new w p False None)) = fold (step old new) (sourceFiles p FileNode) (pairOf w)"
proof (cases "suffix ''.go'' p \<and> Base p \<noteq> ''go.mod''")
  case True
  then show ?thesis
    using walkFn_source_file [of p old new w] by (simp add: pairOf_def step_def)
next
  case False
  then show ?thesis by (auto simp: walkFn_def pairOf_def)
qed

lemma walkFn_dir:
  "walkFn old new w p True None = (if skippedDir p then SkipDir else Nil, w)"
  by (simp add: walkFn_def skippedDir_def)

lemma walk_effect:
  "fn = walkFn old new \<Longrightarrow> walkable path nd \<Longrightarrow>
     (fst (walk fn w path nd) = Nil \<or> (fst (walk fn w path nd) = SkipDir \<and> isDirNode nd)) \<and>
     pairOf (snd (walk fn w path nd)) = fold (step old new) (sourceFiles path nd) (pairOf w)"
  "fn = walkFn old new \<Longrightarrow> walkableIn path es \<Longrightarrow>
     fst (walkEntries fn w path es) = Nil \<and>
     pairOf (snd (walkEntries fn w path es)) = fold (step old new) (sourceFilesIn path es) (pairOf w)"
proof (induction fn w path nd and fn w path es rule: walk_walkEntries.induct)
  case (1 fn w path)
  then show ?case using walkFn_file [of old new w path] by simp
next
  case (2 fn w path)
  then show ?case by simp
next
  case (3 fn w path readable entries)
  show ?case
  proof (cases "skippedDir path")
    case True
    then show ?thesis using 3 by (simp add: walkFn_dir)
  next
    case False
    then show ?thesis using 3 by (simp add: walkFn_dir)
  qed
next
  case (4 fn w path)
  then show ?case by simp
next
  case (5 fn w path name nd rest)
  have fn: "fn = walkFn old new" using "5.prems" by simp
  have nb: "nd \<noteq> Broken" using "5.prems" by auto
  obtain r w1 where w1: "walk fn w (Join path name) nd = (r, w1)"
    by (cases "walk fn w (Join path name) nd")
  have a: "r = Nil \<or> (r = SkipDir \<and> isDirNode nd)"
    and b: "pairOf w1 = fold (step old new) (sourceFiles (Join path name) nd) (pairOf w)"
    using "5.IH"(2) [OF nb fn] "5.prems" w1 by auto
  have c: "\<not> (r \<noteq> Nil \<and> (\<not> isDirNode nd \<or> r \<noteq> SkipDir))" using a by auto
  have "fst (walkEntries fn w1 path rest) = Nil \<and>
     pairOf (snd (walkEntries fn w1 path rest)) = fold (step old new) (sourceFilesIn path rest) (pairOf w1)"
    using "5.IH"(3) [OF nb w1 [symmetric] c fn] "5.prems" by simp
  then show ?case using nb w1 c b by simp
qed

lemma fold_step_distinct:
  "distinct ps \<Longrightarrow>
   fold (step old new) ps (fs, out) =
     (\<lambda>q. if q \<in> set ps then fileAfter old new (fs q) else fs q,
      out @ concat (map (\<lambda>p. fileWarning old new p (fs p)) ps))"
proof (induction ps arbitrary: fs out)
  case Nil
  then show ?case by simp
next
  case (Cons p ps)
  have "fold (step old new) (p # ps) (fs, out)
      = fold (step old new) ps (fs(p := fileAfter old new (fs p)), out @ fileWarning old new p (fs p))"
    by (simp add: step_def)
  also have "\<dots> = (\<lambda>q. if q \<in> set ps then fileAfter old new ((fs(p := fileAfter old new (fs p))) q)
                         else (fs(p := fileAfter old new (fs p))) q,
                (out @ fileWarning old new p (fs p))
                  @ concat (map (\<lambda>q. fileWarning old new q ((fs(p := fileAfter old new (fs p))) q)) ps))"
    using Cons.prems by (intro Cons.IH) simp
  also have "\<dots> = (\<lambda>q. if q \<in> set (p # ps) then fileAfter old new (fs q) else fs q,
                out @ concat (map (\<lambda>p. fileWarning old new p (fs p)) (p # ps)))"
  proof -
    have "p \<notin> set ps" using Cons.prems by simp
    then have "map (\<lambda>q. fileWarning old new q ((fs(p := fileAfter old new (fs p))) q)) ps
             = map (\<lambda>q. fileWarning old new q (fs q)) ps"
      by (intro map_cong) auto
    moreover have "(\<lambda>q. if q \<in> set ps then fileAfter old new ((fs(p := fileAfter old new (fs p))) q)
                         else (fs(p := fileAfter old new (fs p))) q)
                 = (\<lambda>q. if q \<in> set (p # ps) then fileAfter old new (fs q) else fs q)"
      using \<open>p \<notin> set ps\<close> by (intro ext) auto
    ultimately show ?thesis by (simp only: list.map concat.simps append_assoc)
  qed
  finally show ?case .
qed

lemma concat_single:
  "distinct ps \<Longrightarrow> f \<in> set ps \<Longrightarrow> \<forall>p\<in>set ps. p \<noteq> f \<longrightarrow> g p = [] \<Longrightarrow>
   concat (map g ps) = g f"
  by (induction ps) auto

lemma fileWarning_iff: "fileFails w old new p \<longleftrightarrow> fileWarning old new p (files w p) \<noteq> []"
  by (auto simp: fileFails_def fileWarning_def replaceImportPaths_rewriteImports split: fnode.splits)

lemma fileWarning_form:
  "fileWarning old new p n \<noteq> [] \<Longrightarrow>
   \<exists>e. fileWarning old new p n = [''Warning: failed to update import paths in '' @ p @ '': '' @ e @ [newline]]"
  unfolding fileWarning_def by (cases n) (auto split: if_splits)

lemma fileAfter_fails: "fileFails w old new p \<Longrightarrow> fileAfter old new (files w p) = files w p"
  by (auto simp: fileFails_def fileAfter_def split: fnode.splits)

lemma fileAfter_ok:
  "\<not> fileFails w old new p \<Longrightarrow> rewrittenFile old new (files w p) (fileAfter old new (files w p))"
  by (auto simp: fileFails_def fileAfter_def rewrittenFile_def replaceImportPaths_rewriteImports
        split: fnode.splits)


lemma Walk_effect:
  assumes "walkable root tree"
  shows "fst (Walk (walkFn old new) w root tree) = Nil"
    and "pairOf (snd (Walk (walkFn old new) w root tree))
           = fold (step old new) (sourceFiles root tree) (pairOf w)"
proof -
  have nb: "tree \<noteq> Broken" using assms by auto
  obtain r w1 where w1: "walk (walkFn old new) w root tree = (r, w1)"
    by (cases "walk (walkFn old new) w root tree")
  have "r = Nil \<or> r = SkipDir"
    and "pairOf w1 = fold (step old new) (sourceFiles root tree) (pairOf w)"
    using walk_effect(1) [OF refl assms, of old new w] w1 by auto
  then show "fst (Walk (walkFn old new) w root tree) = Nil"
    and "pairOf (snd (Walk (walkFn old new) w root tree))
           = fold (step old new) (sourceFiles root tree) (pairOf w)"
    using nb w1 by (auto simp: Walk_def)
qed

lemma updateImportPaths_effect:
  assumes "old \<noteq> new" "old \<noteq> []" "new \<noteq> []" "walkable root tree"
    and "distinct (sourceFiles root tree)"
  shows "fst (updateImportPaths w tree root old new) = Nil"
    and "files (snd (updateImportPaths w tree root old new)) =
           (\<lambda>q. if q \<in> set (sourceFiles root tree) then fileAfter old new (files w q) else files w q)"
    and "stdout (snd (updateImportPaths w tree root old new)) =
           stdout w @ concat (map (\<lambda>p. fileWarning old new p (files w p)) (sourceFiles root tree))"
proof -
  obtain r w1 where w1: "Walk (walkFn old new) w root tree = (r, w1)"
    by (cases "Walk (walkFn old new) w root tree")
  have r: "r = Nil" using Walk_effect(1) [OF assms(4), of old new w] w1 by simp
  have "pairOf w1 = fold (step old new) (sourceFiles root tree) (files w, stdout w)"
    using Walk_effect(2) [OF assms(4), of old new w] w1 by (simp add: pairOf_def)
  then have p: "(files w1, stdout w1) =
     (\<lambda>q. if q \<in> set (sourceFiles root tree) then fileAfter old new (files w q) else files w q,
      stdout w @ concat (map (\<lambda>p. fileWarning old new p (files w p)) (sourceFiles root tree)))"
    using fold_step_distinct [OF assms(5)] by (simp add: pairOf_def)
  have u: "updateImportPaths w tree root old new = (Nil, w1)"
    using assms(1-3) w1 r by (simp add: updateImportPaths_def)
  show "fst (updateImportPaths w tree root old new) = Nil" using u by simp
  show "files (snd (updateImportPaths w tree root old new)) =
           (\<lambda>q. if q \<in> set (sourceFiles root tree) then fileAfter old new (files w q) else files w q)"
    using u p by simp
  show "stdout (snd (updateImportPaths w tree root old new)) =
           stdout w @ concat (map (\<lambda>p. fileWarning old new p (files w p)) (sourceFiles root tree))"
    using u p by simp
qed

text \<open>
  Claim C4. Let the tree be walkable, its source files have distinct paths, the
  identities be non-empty and distinct, and exactly one source file \<open>f\<close> fail to be read
  or written. Then \<open>updateImportPaths\<close> returns nil; it prints exactly one warning, which
  names \<open>f\<close>; \<open>f\<close> is left as it was; each of the other source files is rewritten; and
  no other path changes.
\<close>

theorem updateImportPaths_isolates_file_failure:
  assumes "old \<noteq> new" and "old \<noteq> []" and "new \<noteq> []"
    and "walkable root tree"
    and "distinct (sourceFiles root tree)"
    and "f \<in> set (sourceFiles root tree)" and "fileFails w old new f"
    and "\<forall>p\<in>set (sourceFiles root tree). p \<noteq> f \<longrightarrow> \<not> fileFails w old new p"
  shows "\<exists>w' e. updateImportPaths w tree root old new = (Nil, w')
           \<and> stdout w' = stdout w
                @ [''Warning: failed to update import paths in '' @ f @ '': '' @ e @ [newline]]
           \<and> files w' f = files w f
           \<and> (\<forall>p\<in>set (sourceFiles root tree).
                 p \<noteq> f \<longrightarrow> rewrittenFile old new (files w p) (files w' p))
           \<and> (\<forall>p. p \<notin> set (sourceFiles root tree) \<longrightarrow> files w' p = files w p)"
proof -
  let ?w' = "snd (updateImportPaths w tree root old new)"
  note eff = updateImportPaths_effect [OF assms(1-5), of w]
  have u: "updateImportPaths w tree root old new = (Nil, ?w')"
    using eff(1) by (simp add: prod_eq_iff)
  have h2: "\<forall>p\<in>set (sourceFiles root tree). p \<noteq> f \<longrightarrow> fileWarning old new p (files w p) = []"
    using assms(8) by (simp add: fileWarning_iff)
  have c: "concat (map (\<lambda>p. fileWarning old new p (files w p)) (sourceFiles root tree))
           = fileWarning old new f (files w f)"
    using concat_single [OF assms(5,6), of "\<lambda>p. fileWarning old new p (files w p)"] h2
    by simp
  have h1: "fileWarning old new f (files w f) \<noteq> []"
    using assms(7) by (simp add: fileWarning_iff)
  from fileWarning_form [OF h1] obtain e where e:
    "fileWarning old new f (files w f) =
       [''Warning: failed to update import paths in '' @ f @ '': '' @ e @ [newline]]" ..
  have out: "stdout ?w' = stdout w
      @ [''Warning: failed to update import paths in '' @ f @ '': '' @ e @ [newline]]"
    using eff(3) c e by (simp only:)
  have ff: "files ?w' f = files w f"
    using eff(2) assms(6) fileAfter_fails [OF assms(7)] by simp
  have ok: "\<forall>p\<in>set (sourceFiles root tree).
              p \<noteq> f \<longrightarrow> rewrittenFile old new (files w p) (files ?w' p)"
    using eff(2) assms(8) fileAfter_ok by simp
  have rest: "\<forall>p. p \<notin> set (sourceFiles root tree) \<longrightarrow> files ?w' p = files w p"
    using eff(2) by simp
  show ?thesis
  proof (intro exI conjI)
    show "updateImportPaths w tree root old new = (Nil, ?w')" by (rule u)
    show "stdout ?w' = stdout w
      @ [''Warning: failed to update import paths in '' @ f @ '': '' @ e @ [newline]]"
      by (rule out)
    show "files ?w' f = files w f" by (rule ff)
    show "\<forall>p\<in>set (sourceFiles root tree).
              p \<noteq> f \<longrightarrow> rewrittenFile old new (files w p) (files ?w' p)" by (rule ok)
    show "\<forall>p. p \<notin> set (sourceFiles root tree) \<longrightarrow> files ?w' p = files w p" by (rule rest)
  qed
qed


text \<open>
  Claim C6. When \<open>oldIdentity\<close> equals \<open>newIdentity\<close>, or either is empty,
  \<open>updateImportPaths\<close> returns an error at once, for every root path and tree: the world
  is returned as it was (no file read, none written, nothing printed), and the message
  contains the identity (when both are equal) or both identities (when one is empty).
\<close>

theorem updateImportPaths_rejects_bad_identities:
  assumes "old = new \<or> old = [] \<or> new = []"
  shows "updateImportPaths w tree root old new =
           (if old = new
            then (Error (''oldModule and newModule are the same: '' @ old), w)
            else (Error (''oldModule and newModule must not be empty (old: '' @ [CHR 0x27] @ old
                    @ [CHR 0x27] @ '', new: '' @ [CHR 0x27] @ new @ [CHR 0x27] @ '')''), w))"
  using assms by (auto simp: updateImportPaths_def)

lemma projTree_files:
  "sourceFiles ''/proj'' projTree = [''/proj/a.go'', ''/proj/b.go'', ''/proj/pkg/c.go'']"
  by code_simp

theorem updateImportPaths_isolates_file_failure_witness:
  "\<exists>w' e. updateImportPaths projWorld projTree ''/proj'' ''a/b'' ''x/y'' = (Nil, w')
      \<and> stdout w' = stdout projWorld
           @ [''Warning: failed to update import paths in '' @ ''/proj/a.go'' @ '': '' @ e @ [newline]]
      \<and> files w' ''/proj/a.go'' = files projWorld ''/proj/a.go''
      \<and> (\<forall>p\<in>set (sourceFiles ''/proj'' projTree).
            p \<noteq> ''/proj/a.go'' \<longrightarrow> rewrittenFile ''a/b'' ''x/y'' (files projWorld p) (files w' p))
      \<and> (\<forall>p. p \<notin> set (sourceFiles ''/proj'' projTree) \<longrightarrow> files w' p = files projWorld p)"
proof -
  have 1: "''a/b'' \<noteq> ''x/y''" by simp
  have 2: "''a/b'' \<noteq> []" by simp
  have 3: "''x/y'' \<noteq> []" by simp
  have 4: "walkable ''/proj'' projTree" by code_simp
  have 5: "distinct (sourceFiles ''/proj'' projTree)" by code_simp
  have 6: "''/proj/a.go'' \<in> set (sourceFiles ''/proj'' projTree)" by code_simp
  have 7: "fileFails projWorld ''a/b'' ''x/y'' ''/proj/a.go''" by code_simp
  have 8: "\<forall>p\<in>set (sourceFiles ''/proj'' projTree).
             p \<noteq> ''/proj/a.go'' \<longrightarrow> \<not> fileFails projWorld ''a/b'' ''x/y'' p" by code_simp
  show ?thesis
    by (rule updateImportPaths_isolates_file_failure [OF 1 2 3 4 5 6 7 8])
qed

lemma projWorld_result:
  "files (snd (updateImportPaths projWorld projTree ''/proj'' ''a/b'' ''x/y'')) ''/proj/b.go''
     = Regular ''import \"x/y/sub\"'' True True"
  by code_simp

theorem updateImportPaths_rejects_bad_identities_witness:
  "updateImportPaths projWorld projTree ''/proj'' ''a/b'' ''a/b'' =
     (Error ''oldModule and newModule are the same: a/b'', projWorld)
   \<and> updateImportPaths projWorld projTree ''/proj'' [] ''x/y'' =
     (Error (''oldModule and newModule must not be empty (old: '' @ [CHR 0x27, CHR 0x27]
        @ '', new: '' @ [CHR 0x27] @ ''x/y'' @ [CHR 0x27] @ '')''), projWorld)"
  using updateImportPaths_rejects_bad_identities [of "''a/b''" "''a/b''" projWorld projTree "''/proj''"]
    updateImportPaths_rejects_bad_identities [of "[]" "''x/y''" projWorld projTree "''/proj''"]
  by simp

section \<open>Freshness of the cache\<close>

lemma Since_less_TTL: "Since now t < CacheTTL \<longleftrightarrow> now - t < CacheTTL"
  by (auto simp: Since_def Sub_def CacheTTL_def Hour_def maxDuration_def minDuration_def)

lemma CacheTTL_value: "CacheTTL = 86400000000000"
  by (simp add: CacheTTL_def Hour_def)

lemma UpdateCacheTime_Nil:
  assumes "UpdateCacheTime e m k T = (Nil, m')"
  shows "\<exists>t. metadata m' = Some t \<and> metadataFile m' = Document (Entries t)
           \<and> t k = Some \<lparr>CachedAt = T, LastChecked = T, Path = Join (cacheDir m) k, Version = []\<rparr>"
  using assms
  by (auto simp: UpdateCacheTime_def loadMetadata_def saveMetadata_def Let_def
        GetTemplateCachePath_def
        split: metadataFile.splits option.splits if_splits prod.splits)

lemma IsCached_by_document:
  "fst (IsCached m k now) \<longleftrightarrow>
     (\<exists>info. now - CachedAt info < CacheTTL \<and>
        ((\<exists>d. metadataFile m = Document (Entries d) \<and>
              (d k = Some info \<or> (d k = None \<and> (\<exists>t. metadata m = Some t \<and> t k = Some info))))
         \<or> (metadataFile m = Document Absent \<and> (\<exists>t. metadata m = Some t \<and> t k = Some info))))"
proof (cases "metadataFile m")
  case Missing
  then show ?thesis by (simp add: IsCached_def loadMetadata_def lookupTemplate_def)
next
  case Unreadable
  then show ?thesis by (simp add: IsCached_def loadMetadata_def)
next
  case (Unparsable d)
  then show ?thesis by (simp add: IsCached_def loadMetadata_def)
next
  case (Document d)
  show ?thesis
  proof (cases d)
    case Absent
    then show ?thesis using Document
      by (auto simp: IsCached_def loadMetadata_def lookupTemplate_def Since_less_TTL
            split: option.splits)
  next
    case Null
    then show ?thesis using Document
      by (simp add: IsCached_def loadMetadata_def lookupTemplate_def)
  next
    case (Entries x)
    then show ?thesis using Document
      by (cases "metadata m")
         (auto simp: IsCached_def loadMetadata_def lookupTemplate_def Since_less_TTL map_add_def
            split: option.splits)
  qed
qed

lemma IsCached_other_manager:
  assumes "UpdateCacheTime e m k T = (Nil, m')" and "metadataFile m2 = metadataFile m'"
  shows "fst (IsCached m2 k q) \<longleftrightarrow> q - T < CacheTTL"
proof -
  from UpdateCacheTime_Nil [OF assms(1)] obtain t where
    t: "metadataFile m' = Document (Entries t)"
       "t k = Some \<lparr>CachedAt = T, LastChecked = T, Path = Join (cacheDir m) k, Version = []\<rparr>"
    by blast
  then have "metadataFile m2 = Document (Entries t)" using assms(2) by simp
  then show ?thesis using t(2)
    by (cases "metadata m2")
       (simp_all add: IsCached_def loadMetadata_def lookupTemplate_def Since_less_TTL)
qed

text \<open>
  Claim C2. \<open>IsCached\<close> answers true exactly when a metadata entry for the key exists and
  \<open>now - CachedAt < 24h\<close> (in nanoseconds; the saturation of \<open>time.Since\<close> makes no
  difference). The entry is the one of the persisted document, or, where the document
  has none (or no \<open>templates\<close> member), the one the manager still holds in memory; for a
  manager that starts with an empty map, as \<open>NewManager\<close> makes it, it is exactly an entry
  of the persisted document. After a successful \<open>UpdateCacheTime\<close> at \<open>T\<close>, every manager
  that reads the document then written answers true at \<open>q\<close> exactly when \<open>q < T + 24h\<close>:
  fresh at \<open>T+23h59m59s\<close>, stale from \<open>T+24h00m00s\<close> on.
\<close>

theorem IsCached_iff_entry_younger_than_TTL:
  "(fst (IsCached m k now) \<longleftrightarrow>
      (\<exists>info. now - CachedAt info < 24 * 3600 * 1000000000 \<and>
         ((\<exists>d. metadataFile m = Document (Entries d) \<and>
               (d k = Some info \<or> (d k = None \<and> (\<exists>t. metadata m = Some t \<and> t k = Some info))))
          \<or> (metadataFile m = Document Absent \<and> (\<exists>t. metadata m = Some t \<and> t k = Some info)))))
   \<and> (metadata m = Some Map.empty \<longrightarrow>
        (fst (IsCached m k now) \<longleftrightarrow>
           (\<exists>d info. metadataFile m = Document (Entries d) \<and> d k = Some info
                     \<and> now - CachedAt info < 24 * 3600 * 1000000000)))
   \<and> (UpdateCacheTime e m k T = (Nil, m') \<and> metadataFile m2 = metadataFile m' \<longrightarrow>
        (fst (IsCached m2 k q) \<longleftrightarrow> q < T + 24 * 3600 * 1000000000))"
proof (intro conjI impI)
  show a: "fst (IsCached m k now) \<longleftrightarrow>
      (\<exists>info. now - CachedAt info < 24 * 3600 * 1000000000 \<and>
         ((\<exists>d. metadataFile m = Document (Entries d) \<and>
               (d k = Some info \<or> (d k = None \<and> (\<exists>t. metadata m = Some t \<and> t k = Some info))))
          \<or> (metadataFile m = Document Absent \<and> (\<exists>t. metadata m = Some t \<and> t k = Some info))))"
    using IsCached_by_document [of m k now] by (simp add: CacheTTL_value)
  show "fst (IsCached m k now) \<longleftrightarrow>
           (\<exists>d info. metadataFile m = Document (Entries d) \<and> d k = Some info
                     \<and> now - CachedAt info < 24 * 3600 * 1000000000)"
    if "metadata m = Some Map.empty"
    using a that by auto
  show "fst (IsCached m2 k q) \<longleftrightarrow> q < T + 24 * 3600 * 1000000000"
    if "UpdateCacheTime e m k T = (Nil, m') \<and> metadataFile m2 = metadataFile m'"
  proof -
    have "q - T < CacheTTL \<longleftrightarrow> q < T + 24 * 3600 * 1000000000"
      by (auto simp: CacheTTL_value)
    then show ?thesis using IsCached_other_manager [of e m k T m' m2 q] that by simp
  qed
qed

lemma touch_emptyCache:
  "fst (UpdateCacheTime allOk emptyCache ''layered'' 0) = Nil"
  by (simp add: UpdateCacheTime_def loadMetadata_def saveMetadata_def emptyCache_def allOk_def)

theorem IsCached_iff_entry_younger_than_TTL_witness:
  "\<not> fst (IsCached emptyCache ''layered'' 0)
   \<and> fst (IsCached
            (emptyCache\<lparr>metadataFile :=
               metadataFile (snd (UpdateCacheTime allOk emptyCache ''layered'' 0))\<rparr>)
            ''layered'' (23 * 3600 * 1000000000 + 59 * 60 * 1000000000 + 59 * 1000000000))
   \<and> \<not> fst (IsCached
            (emptyCache\<lparr>metadataFile :=
               metadataFile (snd (UpdateCacheTime allOk emptyCache ''layered'' 0))\<rparr>)
            ''layered'' (24 * 3600 * 1000000000))"
proof -
  let ?m' = "snd (UpdateCacheTime allOk emptyCache ''layered'' 0)"
  let ?m2 = "emptyCache\<lparr>metadataFile := metadataFile ?m'\<rparr>"
  have u: "UpdateCacheTime allOk emptyCache ''layered'' 0 = (Nil, ?m')"
    using touch_emptyCache by (simp add: prod_eq_iff)
  have f: "metadataFile ?m2 = metadataFile ?m'" by simp
  have e: "metadata emptyCache = Some Map.empty" "metadataFile emptyCache = Missing"
    by (simp_all add: emptyCache_def)
  show ?thesis
    using IsCached_iff_entry_younger_than_TTL
            [of emptyCache "''layered''" 0 allOk 0 ?m' ?m2
                "23 * 3600 * 1000000000 + 59 * 60 * 1000000000 + 59 * 1000000000"]
          IsCached_iff_entry_younger_than_TTL
            [of emptyCache "''layered''" 0 allOk 0 ?m' ?m2 "24 * 3600 * 1000000000"]
          u f e
    by simp
qed


lemma removeEntries_ok:
  "\<forall>(n, isDir)\<in>set ents. isDir \<longrightarrow> removeOk e (Join (cacheDir m) n) \<Longrightarrow>
   fst (removeEntries e m ents) = None
   \<and> metadataFile (snd (removeEntries e m ents)) = metadataFile m
   \<and> cacheDir (snd (removeEntries e m ents)) = cacheDir m"
proof (induction ents arbitrary: m)
  case Nil
  then show ?case by simp
next
  case (Cons a ents)
  obtain n isDir where a: "a = (n, isDir)" by (cases a)
  show ?case
  proof (cases isDir)
    case False
    then show ?thesis using Cons a by simp
  next
    case True
    let ?m1 = "m\<lparr>events := events m @ [EvRemoveAll (Join (cacheDir m) n)],
                 dirExists := (dirExists m)(Join (cacheDir m) n := False)\<rparr>"
    have r: "RemoveAll e m (Join (cacheDir m) n) = (None, ?m1)"
      using Cons.prems a True by (simp add: RemoveAll_def Let_def)
    have "\<forall>(n, isDir)\<in>set ents. isDir \<longrightarrow> removeOk e (Join (cacheDir ?m1) n)"
      using Cons.prems by simp
    from Cons.IH [OF this] show ?thesis using a True r by simp
  qed
qed

lemma ClearCache_any_document:
  assumes "\<forall>(n, isDir)\<in>set ents. isDir \<longrightarrow> removeOk e (Join (cacheDir m) n)" and "saveOk e"
  shows "fst (ClearCache e m (Some ents)) = Nil
       \<and> metadataFile (snd (ClearCache e m (Some ents))) = Document (Entries Map.empty)"
proof -
  obtain r m1 where m1: "removeEntries e m ents = (r, m1)" by (cases "removeEntries e m ents")
  then have "r = None" using removeEntries_ok [OF assms(1)] by simp
  then show ?thesis using m1 assms(2) by (simp add: ClearCache_def saveMetadata_def Let_def)
qed

lemma missing_ops:
  assumes "metadataFile m = Missing"
  shows "fst (IsCached m k now) = False"
    and "fst (IsCacheExpired m k now) = True"
    and "fst (GetCacheInfo m k) = Inl ''template not cached''"
    and "fst (GetCacheAge m k now) = Inl ''template not cached''"
    and "saveOk e \<Longrightarrow> fst (UpdateCacheTime e m k now) = Nil
           \<and> metadataFile (snd (UpdateCacheTime e m k now)) =
               Document (Entries [k \<mapsto> \<lparr>CachedAt = now, LastChecked = now,
                                        Path = Join (cacheDir m) k, Version = []\<rparr>])"
    and "saveOk e \<Longrightarrow> (dirExists m (Join (cacheDir m) k) \<longrightarrow> removeOk e (Join (cacheDir m) k)) \<Longrightarrow>
           fst (ClearTemplateCache e m k) = Nil
           \<and> metadataFile (snd (ClearTemplateCache e m k)) = Document (Entries Map.empty)"
  using assms
  by (auto simp: IsCached_def IsCacheExpired_def GetCacheInfo_def GetCacheAge_def
        UpdateCacheTime_def ClearTemplateCache_def RemoveAll_def
        loadMetadata_def saveMetadata_def lookupTemplate_def Let_def GetTemplateCachePath_def)

lemma unparsable_ops:
  assumes "metadataFile m = Unparsable d"
  shows "fst (IsCached m k now) = False"
    and "fst (IsCacheExpired m k now) = True"
    and "UpdateCacheTime e m k now =
          (Error ''failed to load metadata: failed to parse metadata: invalid JSON'',
           m\<lparr>metadata := unmarshalInto d (metadata m)\<rparr>)"
    and "fst (GetCacheInfo m k) =
          Inl ''failed to load metadata: failed to parse metadata: invalid JSON''"
    and "fst (GetCacheAge m k now) =
          Inl ''failed to load metadata: failed to parse metadata: invalid JSON''"
    and "(dirExists m (Join (cacheDir m) k) \<longrightarrow> removeOk e (Join (cacheDir m) k)) \<Longrightarrow>
           fst (ClearTemplateCache e m k) =
             Error ''failed to load metadata: failed to parse metadata: invalid JSON''
           \<and> metadataFile (snd (ClearTemplateCache e m k)) = Unparsable d"
  using assms
  by (auto simp: IsCached_def IsCacheExpired_def GetCacheInfo_def GetCacheAge_def
        UpdateCacheTime_def ClearTemplateCache_def RemoveAll_def
        loadMetadata_def saveMetadata_def lookupTemplate_def Let_def GetTemplateCachePath_def)

text \<open>
  Claim C7, amended. A missing metadata document is an empty cache for the operations
  that load it: \<open>IsCached\<close> answers false, \<open>IsCacheExpired\<close> true, \<open>GetCacheInfo\<close> and
  \<open>GetCacheAge\<close> report "template not cached", and \<open>UpdateCacheTime\<close> and
  \<open>ClearTemplateCache\<close> (when the file can be written and the directory removed) succeed
  on the empty entry set. An unparsable document makes \<open>IsCached\<close> answer false and
  \<open>IsCacheExpired\<close> true without failing, but \<open>UpdateCacheTime\<close>, \<open>GetCacheInfo\<close>,
  \<open>GetCacheAge\<close> and \<open>ClearTemplateCache\<close> return the error "failed to load metadata: ..."
  and leave the document as it is. \<open>ClearCache\<close> never loads the document: whatever its
  state, it writes an empty one.
\<close>

theorem metadata_missing_is_empty_unparsable_is_error:
  "(metadataFile m = Missing \<longrightarrow>
      fst (IsCached m k now) = False
      \<and> fst (IsCacheExpired m k now) = True
      \<and> fst (GetCacheInfo m k) = Inl ''template not cached''
      \<and> fst (GetCacheAge m k now) = Inl ''template not cached''
      \<and> (saveOk e \<longrightarrow>
           fst (UpdateCacheTime e m k now) = Nil
           \<and> metadataFile (snd (UpdateCacheTime e m k now)) =
               Document (Entries [k \<mapsto> \<lparr>CachedAt = now, LastChecked = now,
                                        Path = Join (cacheDir m) k, Version = []\<rparr>]))
      \<and> (saveOk e \<and> (dirExists m (Join (cacheDir m) k) \<longrightarrow> removeOk e (Join (cacheDir m) k)) \<longrightarrow>
           fst (ClearTemplateCache e m k) = Nil
           \<and> metadataFile (snd (ClearTemplateCache e m k)) = Document (Entries Map.empty)))
   \<and> (metadataFile m = Unparsable d \<longrightarrow>
      fst (IsCached m k now) = False
      \<and> fst (IsCacheExpired m k now) = True
      \<and> UpdateCacheTime e m k now =
          (Error ''failed to load metadata: failed to parse metadata: invalid JSON'',
           m\<lparr>metadata := unmarshalInto d (metadata m)\<rparr>)
      \<and> fst (GetCacheInfo m k) =
          Inl ''failed to load metadata: failed to parse metadata: invalid JSON''
      \<and> fst (GetCacheAge m k now) =
          Inl ''failed to load metadata: failed to parse metadata: invalid JSON''
      \<and> ((dirExists m (Join (cacheDir m) k) \<longrightarrow> removeOk e (Join (cacheDir m) k)) \<longrightarrow>
           fst (ClearTemplateCache e m k) =
             Error ''failed to load metadata: failed to parse metadata: invalid JSON''
           \<and> metadataFile (snd (ClearTemplateCache e m k)) = Unparsable d))
   \<and> ((\<forall>(n, isDir)\<in>set ents. isDir \<longrightarrow> removeOk e (Join (cacheDir m) n)) \<and> saveOk e \<longrightarrow>
        fst (ClearCache e m (Some ents)) = Nil
        \<and> metadataFile (snd (ClearCache e m (Some ents))) = Document (Entries Map.empty))"
proof (intro conjI impI)
  assume a: "metadataFile m = Missing"
  note ops = missing_ops [OF a]
  show "fst (IsCached m k now) = False" by (rule ops(1))
  show "fst (IsCacheExpired m k now) = True" by (rule ops(2))
  show "fst (GetCacheInfo m k) = Inl ''template not cached''" by (rule ops(3))
  show "fst (GetCacheAge m k now) = Inl ''template not cached''" by (rule ops(4))
  show "fst (UpdateCacheTime e m k now) = Nil" if "saveOk e" using ops(5) that by blast
  show "metadataFile (snd (UpdateCacheTime e m k now)) =
               Document (Entries [k \<mapsto> \<lparr>CachedAt = now, LastChecked = now,
                                        Path = Join (cacheDir m) k, Version = []\<rparr>])"
    if "saveOk e" using ops(5) that by blast
  show "fst (ClearTemplateCache e m k) = Nil"
    if "saveOk e \<and> (dirExists m (Join (cacheDir m) k) \<longrightarrow> removeOk e (Join (cacheDir m) k))"
    using ops(6) that by blast
  show "metadataFile (snd (ClearTemplateCache e m k)) = Document (Entries Map.empty)"
    if "saveOk e \<and> (dirExists m (Join (cacheDir m) k) \<longrightarrow> removeOk e (Join (cacheDir m) k))"
    using ops(6) that by blast
next
  assume a: "metadataFile m = Unparsable d"
  note ops = unparsable_ops [OF a]
  show "fst (IsCached m k now) = False" by (rule ops(1))
  show "fst (IsCacheExpired m k now) = True" by (rule ops(2))
  show "UpdateCacheTime e m k now =
          (Error ''failed to load metadata: failed to parse metadata: invalid JSON'',
           m\<lparr>metadata := unmarshalInto d (metadata m)\<rparr>)" by (rule ops(3))
  show "fst (GetCacheInfo m k) =
          Inl ''failed to load metadata: failed to parse metadata: invalid JSON''" by (rule ops(4))
  show "fst (GetCacheAge m k now) =
          Inl ''failed to load metadata: failed to parse metadata: invalid JSON''" by (rule ops(5))
  show "fst (ClearTemplateCache e m k) =
             Error ''failed to load metadata: failed to parse metadata: invalid JSON''"
    if "dirExists m (Join (cacheDir m) k) \<longrightarrow> removeOk e (Join (cacheDir m) k)"
    using ops(6) that by blast
  show "metadataFile (snd (ClearTemplateCache e m k)) = Unparsable d"
    if "dirExists m (Join (cacheDir m) k) \<longrightarrow> removeOk e (Join (cacheDir m) k)"
    using ops(6) that by blast
next
  assume a: "(\<forall>(n, isDir)\<in>set ents. isDir \<longrightarrow> removeOk e (Join (cacheDir m) n)) \<and> saveOk e"
  then show "fst (ClearCache e m (Some ents)) = Nil"
    using ClearCache_any_document [of ents e m] by blast
  from a show "metadataFile (snd (ClearCache e m (Some ents))) = Document (Entries Map.empty)"
    using ClearCache_any_document [of ents e m] by blast
qed

theorem metadata_missing_is_empty_unparsable_is_error_witness:
  "fst (IsCached emptyCache ''layered'' 5) = False
   \<and> fst (IsCacheExpired emptyCache ''layered'' 5) = True
   \<and> fst (UpdateCacheTime allOk emptyCache ''layered'' 5) = Nil
   \<and> fst (ClearTemplateCache allOk emptyCache ''layered'') = Nil
   \<and> fst (IsCached corruptCache ''layered'' 5) = False
   \<and> fst (IsCacheExpired corruptCache ''layered'' 5) = True
   \<and> fst (GetCacheInfo corruptCache ''layered'')
        = Inl ''failed to load metadata: failed to parse metadata: invalid JSON''
   \<and> fst (ClearTemplateCache allOk corruptCache ''layered'')
        = Error ''failed to load metadata: failed to parse metadata: invalid JSON''
   \<and> fst (ClearCache allOk corruptCache (Some [(''layered'', True), (''cache-metadata.json'', False)]))
        = Nil"
proof -
  have a: "metadataFile emptyCache = Missing" by (simp add: emptyCache_def)
  have b: "metadataFile corruptCache = Unparsable Absent"
    by (simp add: corruptCache_def emptyCache_def)
  have c: "saveOk allOk" "\<And>p. removeOk allOk p" by (simp_all add: allOk_def)
  show ?thesis
    using metadata_missing_is_empty_unparsable_is_error
            [of emptyCache "''layered''" 5 allOk Absent "[]"]
          metadata_missing_is_empty_unparsable_is_error
            [of corruptCache "''layered''" 5 allOk Absent
                "[(''layered'', True), (''cache-metadata.json'', False)]"]
          a b c
    by simp
qed


text \<open>
  Counterexample to claim C7 as it is stated: with an unparsable document,
  \<open>UpdateCacheTime\<close> returns an error instead of working on an empty entry set.
\<close>

theorem UpdateCacheTime_unparsable_counterexample:
  "fst (UpdateCacheTime allOk corruptCache ''layered'' 0)
     = Error ''failed to load metadata: failed to parse metadata: invalid JSON''"
  by (simp add: UpdateCacheTime_def loadMetadata_def corruptCache_def emptyCache_def)

section \<open>Fetching templates\<close>
lemma injectCredential_https:
  "injectCredential (''https://'' @ rest) token = ''https://'' @ token @ ''@'' @ rest"
  by (simp add: injectCredential_def)

text \<open>
  Claim C9, amended. With an empty credential the URL is returned unchanged. With a
  credential the result is \<open>https://<credential>@<rest>\<close>, where \<open><rest>\<close> is the URL
  after a leading \<open>https://\<close>, if there is one, and then a leading \<open>http://\<close>, if there
  is one, have been removed. So for \<open>https://R\<close>, where \<open>R\<close> does not itself start with
  \<open>http://\<close>, the credential is injected into the authority with scheme, host and path
  kept; for \<open>https://http://R\<close> both prefixes go and the result is
  \<open>https://<credential>@R\<close>; for \<open>http://R\<close> the result is \<open>https://<credential>@R\<close>, the
  scheme changed; any other URL is kept whole after the \<open>@\<close>.
\<close>

theorem buildAuthenticatedURL_always_https:
  "buildAuthenticatedURL url [] = url
   \<and> (token \<noteq> [] \<longrightarrow>
        buildAuthenticatedURL url token =
          ''https://'' @ token @ ''@'' @ TrimPrefix (TrimPrefix url ''https://'') ''http://'')
   \<and> (token \<noteq> [] \<longrightarrow> \<not> prefix ''http://'' rest \<longrightarrow>
        buildAuthenticatedURL (''https://'' @ rest) token = ''https://'' @ token @ ''@'' @ rest
        \<and> buildAuthenticatedURL (''https://'' @ rest) token
            = injectCredential (''https://'' @ rest) token)
   \<and> (token \<noteq> [] \<longrightarrow>
        buildAuthenticatedURL (''https://http://'' @ rest) token
          = ''https://'' @ token @ ''@'' @ rest)
   \<and> (token \<noteq> [] \<longrightarrow>
        buildAuthenticatedURL (''http://'' @ rest) token = ''https://'' @ token @ ''@'' @ rest)
   \<and> (token \<noteq> [] \<longrightarrow> \<not> prefix ''https://'' url \<longrightarrow> \<not> prefix ''http://'' url \<longrightarrow>
        buildAuthenticatedURL url token = ''https://'' @ token @ ''@'' @ url)"
  using injectCredential_https [of rest token]
  by (simp add: buildAuthenticatedURL_def TrimPrefix_def)

theorem buildAuthenticatedURL_always_https_witness:
  "buildAuthenticatedURL ''https://github.com/PickHD/go-layered-template.git'' ''tok''
     = ''https://tok@github.com/PickHD/go-layered-template.git''
   \<and> buildAuthenticatedURL ''https://http://example.com/r.git'' ''tok''
     = ''https://tok@example.com/r.git''
   \<and> buildAuthenticatedURL ''http://example.com/r.git'' ''tok'' = ''https://tok@example.com/r.git''
   \<and> buildAuthenticatedURL ''git@example.com:r.git'' ''tok'' = ''https://tok@git@example.com:r.git''"
proof -
  have t: "''tok'' \<noteq> []" by simp
  have n1: "\<not> prefix ''http://'' ''github.com/PickHD/go-layered-template.git''" by simp
  have n2: "\<not> prefix ''https://'' ''git@example.com:r.git''"
    "\<not> prefix ''http://'' ''git@example.com:r.git''" by simp_all
  note a = buildAuthenticatedURL_always_https
             [of "''git@example.com:r.git''" "''tok''" "''github.com/PickHD/go-layered-template.git''"]
  note b = buildAuthenticatedURL_always_https
             [of "''git@example.com:r.git''" "''tok''" "''example.com/r.git''"]
  have "buildAuthenticatedURL (''https://'' @ ''github.com/PickHD/go-layered-template.git'') ''tok''
          = ''https://'' @ ''tok'' @ ''@'' @ ''github.com/PickHD/go-layered-template.git''"
    using a t n1 by blast
  moreover have "buildAuthenticatedURL (''https://http://'' @ ''example.com/r.git'') ''tok''
          = ''https://'' @ ''tok'' @ ''@'' @ ''example.com/r.git''"
    using b t by blast
  moreover have "buildAuthenticatedURL (''http://'' @ ''example.com/r.git'') ''tok''
          = ''https://'' @ ''tok'' @ ''@'' @ ''example.com/r.git''"
    using b t by blast
  moreover have "buildAuthenticatedURL ''git@example.com:r.git'' ''tok''
          = ''https://'' @ ''tok'' @ ''@'' @ ''git@example.com:r.git''"
    using b t n2 by blast
  ultimately show ?thesis by simp
qed

text \<open>
  Counterexample to claim C9 as it is stated: for an \<open>http\<close> URL the scheme of the result
  is \<open>https\<close>, where injecting the credential into the authority would keep \<open>http\<close>.
\<close>

theorem buildAuthenticatedURL_scheme_counterexample:
  "buildAuthenticatedURL ''http://example.com/r.git'' ''tok'' = ''https://tok@example.com/r.git''
   \<and> injectCredential ''http://example.com/r.git'' ''tok'' = ''http://tok@example.com/r.git''"
  by (simp add: buildAuthenticatedURL_def TrimPrefix_def injectCredential_def)


lemma IsCached_keeps:
  "IsCached m k now = (b, m1) \<Longrightarrow>
     events m1 = events m \<and> metadataFile m1 = metadataFile m \<and> dirExists m1 = dirExists m
     \<and> cacheDir m1 = cacheDir m"
  by (auto simp: IsCached_def loadMetadata_def
        split: metadataFile.splits option.splits prod.splits)

lemma UpdateCacheTime_events:
  "UpdateCacheTime e m k now = (r, m') \<Longrightarrow>
     dirExists m' = dirExists m \<and>
     ((events m' = events m \<and> metadataFile m' = metadataFile m \<and> r \<noteq> Nil)
      \<or> events m' = events m @ [EvSaveMetadata])"
  by (auto simp: UpdateCacheTime_def loadMetadata_def saveMetadata_def Let_def
        split: metadataFile.splits option.splits prod.splits if_splits)

lemma UpdateTemplate_events:
  assumes t: "GetTemplate tmpls k = Inr t"
    and u: "UpdateTemplate e tmpls m k token now = (r, m')"
  shows "\<exists>new. events m' = events m @ new
     \<and> (dirExists m (Join (cacheDir m) k) \<and> removeOk e (Join (cacheDir m) k) \<and> mkdirOk e \<longrightarrow>
          (\<exists>rest. new = [EvPull (Join (cacheDir m) k), EvRemoveAll (Join (cacheDir m) k),
                          EvClone (buildAuthenticatedURL (Repository t) token) (Branch t)
                            (Join (cacheDir m) k)] @ rest
                 \<and> (rest = [] \<or> rest = [EvSaveMetadata])))
     \<and> (\<not> dirExists m (Join (cacheDir m) k) \<and> mkdirOk e \<longrightarrow>
          (\<exists>rest. new = [EvClone (buildAuthenticatedURL (Repository t) token) (Branch t)
                            (Join (cacheDir m) k)] @ rest
                 \<and> (rest = [] \<or> rest = [EvSaveMetadata])))
     \<and> (EvSaveMetadata \<in> set new \<or> metadataFile m' \<noteq> metadataFile m \<or> r = Nil \<longrightarrow>
          cloneOk e (buildAuthenticatedURL (Repository t) token) (Branch t)
          \<and> (\<exists>pre. new = pre @ [EvClone (buildAuthenticatedURL (Repository t) token) (Branch t)
                                   (Join (cacheDir m) k), EvSaveMetadata]))"
proof -
  let ?p = "Join (cacheDir m) k"
  let ?url = "buildAuthenticatedURL (Repository t) token"
  let ?c = "EvClone ?url (Branch t) ?p"
  consider (norm) "dirExists m ?p" "\<not> removeOk e ?p"
    | (nomk) "\<not> mkdirOk e" "dirExists m ?p \<longrightarrow> removeOk e ?p"
    | (nocl) "mkdirOk e" "dirExists m ?p \<longrightarrow> removeOk e ?p" "\<not> cloneOk e ?url (Branch t)"
    | (ok) "mkdirOk e" "dirExists m ?p \<longrightarrow> removeOk e ?p" "cloneOk e ?url (Branch t)"
    by blast
  then show ?thesis
  proof cases
    case norm
    then have "events m' = events m @ [EvPull ?p, EvRemoveAll ?p]" "metadataFile m' = metadataFile m"
      "r \<noteq> Nil"
      using t u
      by (auto simp: UpdateTemplate_def GetTemplateCachePath_def pullTemplate_def RemoveAll_def Let_def)
    then show ?thesis using norm by simp
  next
    case nomk
    then have "events m' = events m @ (if dirExists m ?p then [EvPull ?p, EvRemoveAll ?p] else [])"
      "metadataFile m' = metadataFile m" "r \<noteq> Nil"
      using t u
      by (auto simp: UpdateTemplate_def GetTemplateCachePath_def pullTemplate_def RemoveAll_def
            cloneTemplate_def Let_def split: if_splits)
    then show ?thesis using nomk by auto
  next
    case nocl
    then have "events m' = events m @ (if dirExists m ?p then [EvPull ?p, EvRemoveAll ?p] else []) @ [?c]"
      "metadataFile m' = metadataFile m" "r \<noteq> Nil"
      using t u
      by (auto simp: UpdateTemplate_def GetTemplateCachePath_def pullTemplate_def RemoveAll_def
            cloneTemplate_def Let_def split: if_splits)
    then show ?thesis using nocl by auto
  next
    case ok
    let ?pre = "(if dirExists m ?p then [EvPull ?p, EvRemoveAll ?p] else []) @ [?c]"
    define m3 where
      "m3 = m\<lparr>events := events m @ ?pre, dirExists := (dirExists m)(?p := True)\<rparr>"
    have "UpdateTemplate e tmpls m k token now = UpdateCacheTime e m3 k now"
      using t ok
      by (auto simp: UpdateTemplate_def GetTemplateCachePath_def pullTemplate_def RemoveAll_def
            cloneTemplate_def Let_def m3_def)
    then have m3: "events m3 = events m @ ?pre" "metadataFile m3 = metadataFile m"
      "UpdateCacheTime e m3 k now = (r, m')"
      using u by (simp_all add: m3_def)
    from UpdateCacheTime_events [OF m3(3)]
    consider (a) "events m' = events m3" "metadataFile m' = metadataFile m3" "r \<noteq> Nil"
      | (b) "events m' = events m3 @ [EvSaveMetadata]"
      by blast
    then show ?thesis
    proof cases
      case a
      then have "events m' = events m @ ?pre" "metadataFile m' = metadataFile m" "r \<noteq> Nil"
        using m3 by simp_all
      then show ?thesis using ok by auto
    next
      case b
      then have e: "events m' = events m @ ?pre @ [EvSaveMetadata]" using m3 by simp
      have B: "dirExists m ?p \<and> removeOk e ?p \<and> mkdirOk e \<longrightarrow>
          (\<exists>rest. ?pre @ [EvSaveMetadata] = [EvPull ?p, EvRemoveAll ?p, ?c] @ rest
                 \<and> (rest = [] \<or> rest = [EvSaveMetadata]))"
        by simp
      have B': "\<not> dirExists m ?p \<and> mkdirOk e \<longrightarrow>
          (\<exists>rest. ?pre @ [EvSaveMetadata] = [?c] @ rest
                 \<and> (rest = [] \<or> rest = [EvSaveMetadata]))"
        by simp
      have "?pre @ [EvSaveMetadata]
              = (if dirExists m ?p then [EvPull ?p, EvRemoveAll ?p] else []) @ [?c, EvSaveMetadata]"
        by simp
      then have C: "cloneOk e ?url (Branch t)
          \<and> (\<exists>pre. ?pre @ [EvSaveMetadata] = pre @ [?c, EvSaveMetadata])"
        using ok(3) by blast
      show ?thesis
        by (rule exI [of _ "?pre @ [EvSaveMetadata]"]) (use e B B' C in blast)
    qed
  qed
qed


text \<open>
  Claim C3. For a key of the registry: when \<open>IsCached\<close> holds, \<open>EnsureTemplateCached\<close>
  returns nil with no event, the metadata file and the directories as they were.
  Otherwise it fetches: where the directory exists, the pull (which always fails) is
  followed by the removal of the directory and, when removal and \<open>MkdirAll\<close> succeed, by
  the shallow clone; where it does not exist the clone comes first. The metadata file is
  written, and nil returned, only directly after a clone that succeeded.
\<close>

theorem EnsureTemplateCached_fetch_discipline:
  assumes "EnsureTemplateCached e tmpls m k token now = (r, m')"
    and "GetTemplate tmpls k = Inr t"
  shows "(fst (IsCached m k now) \<longrightarrow>
            r = Nil \<and> events m' = events m \<and> metadataFile m' = metadataFile m
            \<and> dirExists m' = dirExists m)
     \<and> (\<not> fst (IsCached m k now) \<longrightarrow>
          (\<exists>new. events m' = events m @ new
             \<and> (dirExists m (Join (cacheDir m) k) \<and> removeOk e (Join (cacheDir m) k) \<and> mkdirOk e \<longrightarrow>
                  (\<exists>rest. new = [EvPull (Join (cacheDir m) k), EvRemoveAll (Join (cacheDir m) k),
                                  EvClone (buildAuthenticatedURL (Repository t) token) (Branch t)
                                    (Join (cacheDir m) k)] @ rest
                         \<and> (rest = [] \<or> rest = [EvSaveMetadata])))
             \<and> (\<not> dirExists m (Join (cacheDir m) k) \<and> mkdirOk e \<longrightarrow>
                  (\<exists>rest. new = [EvClone (buildAuthenticatedURL (Repository t) token) (Branch t)
                                    (Join (cacheDir m) k)] @ rest
                         \<and> (rest = [] \<or> rest = [EvSaveMetadata])))
             \<and> (EvSaveMetadata \<in> set new \<or> metadataFile m' \<noteq> metadataFile m \<or> r = Nil \<longrightarrow>
                  cloneOk e (buildAuthenticatedURL (Repository t) token) (Branch t)
                  \<and> (\<exists>pre. new = pre @ [EvClone (buildAuthenticatedURL (Repository t) token)
                                           (Branch t) (Join (cacheDir m) k), EvSaveMetadata]))))"
proof (cases "fst (IsCached m k now)")
  case True
  obtain m1 where m1: "IsCached m k now = (True, m1)"
    using True by (cases "IsCached m k now") auto
  then have "r = Nil" "m' = m1" using assms(1) by (auto simp: EnsureTemplateCached_def)
  then show ?thesis using True IsCached_keeps [OF m1] by simp
next
  case False
  obtain m1 where m1: "IsCached m k now = (False, m1)"
    using False by (cases "IsCached m k now") auto
  note keep = IsCached_keeps [OF m1]
  have u: "UpdateTemplate e tmpls m1 k token now = (r, m')"
    using assms(1) m1 by (simp add: EnsureTemplateCached_def)
  show ?thesis
    using False UpdateTemplate_events [OF assms(2) u] keep by (simp only: simp_thms) 
qed

lemma layered_found: "GetTemplate getDefaultTemplates ''layered'' = Inr layeredTemplate"
  by (simp add: getDefaultTemplates_def layeredTemplate_def)

lemma stale_not_cached: "\<not> fst (IsCached staleCache ''layered'' 0)"
  by (simp add: IsCached_def loadMetadata_def lookupTemplate_def staleCache_def emptyCache_def)

lemma fresh_cached:
  "fst (IsCached (snd (UpdateCacheTime allOk emptyCache ''layered'' 0)) ''layered'' 1)"
  by (simp add: IsCached_def loadMetadata_def lookupTemplate_def UpdateCacheTime_def
        saveMetadata_def emptyCache_def allOk_def Since_def Sub_def CacheTTL_def Hour_def
        maxDuration_def minDuration_def)

theorem EnsureTemplateCached_fetch_discipline_witness:
  "(\<exists>rest. events (snd (EnsureTemplateCached allOk getDefaultTemplates staleCache ''layered'' ''tok'' 0))
       = [EvPull ''/home/u/.cache/.pick-your-go/layered'',
          EvRemoveAll ''/home/u/.cache/.pick-your-go/layered'',
          EvClone ''https://tok@github.com/PickHD/go-layered-template.git'' ''main''
            ''/home/u/.cache/.pick-your-go/layered''] @ rest
     \<and> (rest = [] \<or> rest = [EvSaveMetadata]))
   \<and> fst (EnsureTemplateCached allOk getDefaultTemplates
             (snd (UpdateCacheTime allOk emptyCache ''layered'' 0)) ''layered'' ''tok'' 1) = Nil
   \<and> events (snd (EnsureTemplateCached allOk getDefaultTemplates
             (snd (UpdateCacheTime allOk emptyCache ''layered'' 0)) ''layered'' ''tok'' 1))
       = events (snd (UpdateCacheTime allOk emptyCache ''layered'' 0))"
proof -
  let ?p = "''/home/u/.cache/.pick-your-go/layered''"
  let ?fresh = "snd (UpdateCacheTime allOk emptyCache ''layered'' 0)"
  have a: "EnsureTemplateCached allOk getDefaultTemplates staleCache ''layered'' ''tok'' 0
         = (fst (EnsureTemplateCached allOk getDefaultTemplates staleCache ''layered'' ''tok'' 0),
            snd (EnsureTemplateCached allOk getDefaultTemplates staleCache ''layered'' ''tok'' 0))"
    by simp
  have b: "EnsureTemplateCached allOk getDefaultTemplates ?fresh ''layered'' ''tok'' 1
         = (fst (EnsureTemplateCached allOk getDefaultTemplates ?fresh ''layered'' ''tok'' 1),
            snd (EnsureTemplateCached allOk getDefaultTemplates ?fresh ''layered'' ''tok'' 1))"
    by simp
  have j: "Join (cacheDir staleCache) ''layered'' = ?p"
    by (simp add: Join_def staleCache_def emptyCache_def)
  have d: "dirExists staleCache ?p" "removeOk allOk ?p" "mkdirOk allOk" "events staleCache = []"
    by (simp_all add: staleCache_def emptyCache_def allOk_def)
  have url: "buildAuthenticatedURL (Repository layeredTemplate) ''tok''
           = ''https://tok@github.com/PickHD/go-layered-template.git''"
    by (simp add: buildAuthenticatedURL_def TrimPrefix_def layeredTemplate_def)
  have br: "Branch layeredTemplate = ''main''" by (simp add: layeredTemplate_def)
  show ?thesis
    using EnsureTemplateCached_fetch_discipline [OF a layered_found]
          EnsureTemplateCached_fetch_discipline [OF b layered_found]
          stale_not_cached fresh_cached d
    by (simp only: j url br simp_thms append_Nil)
qed

end
